theory Spec2Isabelle
  imports Complex_Main "HOL-Library.Sublist"
begin

section \<open>The /models catalogue of src/api/routers/model.py\<close>

text \<open>
  The module keeps one process-wide dictionary \<^verbatim>\<open>MODELS_CACHE\<close> and builds the payload of
  \<^verbatim>\<open>GET /models\<close> from two Bedrock listings. The embedding below follows the module
  function by function. Everything the Python does besides returning a value is explicit:
  the cache, the clock read by \<^verbatim>\<open>_now()\<close> and the two upstream listings live in a
  \<open>world\<close> record that every function takes and returns; an exception raised by the
  upstream client is the \<open>Inl\<close> branch of a sum.
\<close>

subsection \<open>Upstream data\<close>

text \<open>
  An exception raised by boto3 while a listing is fetched. The module catches nothing, so
  all that matters is that the same exception reaches the caller; it carries its message.
\<close>

datatype error = BotoError string

text \<open>
  The value of \<^verbatim>\<open>s.get("createdAt")\<close>: the key is absent (\<^verbatim>\<open>None\<close>), or the value has a
  \<^verbatim>\<open>timestamp\<close> attribute (a \<^verbatim>\<open>datetime\<close>), or it is some other value without one.
  A time-like value is represented by the number its \<^verbatim>\<open>timestamp()\<close> method returns;
  every finite float is a rational, so a \<open>rat\<close> holds it exactly.
\<close>

datatype created_val = NoCreatedAt | Datetime rat | NotTimeLike

text \<open>
  The dictionaries of the upstream responses. A field read with \<^verbatim>\<open>.get(key)\<close> is an
  option: \<open>None\<close> when the key is absent.
\<close>

record fm_summary =
  modelId :: "string option"

record fm_response =
  modelSummaries :: "fm_summary list option"

record profile_summary =
  inferenceProfileId :: "string option"
  inferenceProfileArn :: "string option"
  createdAt :: created_val

record page =
  inferenceProfileSummaries :: "profile_summary list option"

text \<open>
  The iterator returned by \<^verbatim>\<open>paginator.paginate(...)\<close>: it yields pages one at a time and
  either ends or raises while fetching the next page.
\<close>

datatype page_stream = Exhausted | Page page page_stream | Raises error

subsection \<open>Output data\<close>

record model_entry =
  id_m :: string
  created :: int
  object_m :: string
  owned_by :: string

record payload =
  object_p :: string
  data :: "model_entry list"

subsection \<open>The world: cache, clock and upstream\<close>

text \<open>
  \<open>MODELS_CACHE_data\<close> and \<open>MODELS_CACHE_ts\<close> are the two keys of \<^verbatim>\<open>MODELS_CACHE\<close>.
  \<open>time_readings n\<close> is what the \<open>n\<close>-th call of \<^verbatim>\<open>int(time.time())\<close> returns and
  \<open>now_calls\<close> counts the calls made so far. \<open>fm_results n\<close> is the outcome of the
  \<open>n\<close>-th call of \<^verbatim>\<open>client.list_foundation_models()\<close>, \<open>pg_results n\<close> the page
  iterator of the \<open>n\<close>-th call of \<^verbatim>\<open>paginate\<close>; \<open>fm_calls\<close> and \<open>pg_calls\<close> count
  the upstream calls made so far. Building the client (\<^verbatim>\<open>_bedrock_client\<close>) and the
  paginator makes no request and is not represented.
\<close>

record world =
  MODELS_CACHE_data :: "payload option"
  MODELS_CACHE_ts :: int
  time_readings :: "nat \<Rightarrow> int"
  now_calls :: nat
  fm_results :: "nat \<Rightarrow> error + fm_response"
  fm_calls :: nat
  pg_results :: "nat \<Rightarrow> page_stream"
  pg_calls :: nat

definition CACHE_TTL_SECONDS :: int where
  "CACHE_TTL_SECONDS = 300"

text \<open>The state of the module right after import: \<^verbatim>\<open>{"data": None, "ts": 0}\<close>.\<close>

definition initial_world ::
  "(nat \<Rightarrow> int) \<Rightarrow> (nat \<Rightarrow> error + fm_response) \<Rightarrow> (nat \<Rightarrow> page_stream) \<Rightarrow> world" where
  "initial_world clock fm pg =
     \<lparr>MODELS_CACHE_data = None, MODELS_CACHE_ts = 0,
      time_readings = clock, now_calls = 0,
      fm_results = fm, fm_calls = 0,
      pg_results = pg, pg_calls = 0\<rparr>"

subsection \<open>Python primitives\<close>

text \<open>\<^verbatim>\<open>int(x)\<close> on a float truncates towards zero.\<close>

definition py_int :: "rat \<Rightarrow> int" where
  "py_int r = (if 0 \<le> r then \<lfloor>r\<rfloor> else \<lceil>r\<rceil>)"

text \<open>
  Truth value of the result of \<^verbatim>\<open>d.get(key)\<close> for a string field: \<^verbatim>\<open>None\<close> and the
  empty string are false.
\<close>

fun truthy :: "string option \<Rightarrow> bool" where
  "truthy None = False"
| "truthy (Some s) = (s \<noteq> [])"

text \<open>
  Truth value of \<^verbatim>\<open>MODELS_CACHE["data"]\<close>: \<^verbatim>\<open>None\<close> is false; a stored payload is a
  dictionary with the two keys \<^verbatim>\<open>"object"\<close> and \<^verbatim>\<open>"data"\<close>, hence non-empty and true
  whatever its \<^verbatim>\<open>"data"\<close> list holds.
\<close>

fun truthy_payload :: "payload option \<Rightarrow> bool" where
  "truthy_payload None = False"
| "truthy_payload (Some p) = True"

subsection \<open>\<^verbatim>\<open>_now\<close>\<close>

definition now :: "world \<Rightarrow> int \<times> world" where
  "now w = (time_readings w (now_calls w), w\<lparr>now_calls := Suc (now_calls w)\<rparr>)"

subsection \<open>\<^verbatim>\<open>_list_foundation_models\<close>\<close>

definition mk_entry :: "string \<Rightarrow> int \<Rightarrow> model_entry" where
  "mk_entry i c = \<lparr>id_m = i, created = c, object_m = ''model'', owned_by = ''bedrock''\<rparr>"

text \<open>The \<^verbatim>\<open>for m in ...\<close> loop of lines 33 to 44, \<open>out\<close> being the list built so far.\<close>

fun fm_loop :: "fm_summary list \<Rightarrow> model_entry list \<Rightarrow> world \<Rightarrow> model_entry list \<times> world" where
  "fm_loop [] out w = (out, w)"
| "fm_loop (m # ms) out w =
     (case modelId m of
        None \<Rightarrow> fm_loop ms out w
      | Some mid \<Rightarrow>
          if mid = [] then fm_loop ms out w
          else (case now w of (t, w') \<Rightarrow> fm_loop ms (out @ [mk_entry mid t]) w'))"

definition list_foundation_models :: "world \<Rightarrow> (error + model_entry list) \<times> world" where
  "list_foundation_models w =
     (let w1 = w\<lparr>fm_calls := Suc (fm_calls w)\<rparr> in
      case fm_results w (fm_calls w) of
        Inl e \<Rightarrow> (Inl e, w1)
      | Inr resp \<Rightarrow>
          (case fm_loop (case modelSummaries resp of None \<Rightarrow> [] | Some ms \<Rightarrow> ms) [] w1 of
             (out, w2) \<Rightarrow> (Inr out, w2)))"

subsection \<open>\<^verbatim>\<open>_list_cross_region_profiles\<close>\<close>

text \<open>\<^verbatim>\<open>if x: out.append({...})\<close> of lines 62 to 79.\<close>

fun append_if :: "string option \<Rightarrow> int \<Rightarrow> model_entry list \<Rightarrow> model_entry list" where
  "append_if None c out = out"
| "append_if (Some s) c out = (if s = [] then out else out @ [mk_entry s c])"

text \<open>The body of the inner loop, lines 54 to 79, for one profile summary.\<close>

definition profile_step :: "profile_summary \<Rightarrow> model_entry list \<Rightarrow> world \<Rightarrow> model_entry list \<times> world" where
  "profile_step s out w =
     (let pid = inferenceProfileId s;
          arn = inferenceProfileArn s;
          created_at = createdAt s
      in case (case created_at of Datetime r \<Rightarrow> (py_int r, w) | NoCreatedAt \<Rightarrow> now w | NotTimeLike \<Rightarrow> now w) of
           (created_ts, w') \<Rightarrow> (append_if arn created_ts (append_if pid created_ts out), w'))"

fun profile_loop :: "profile_summary list \<Rightarrow> model_entry list \<Rightarrow> world \<Rightarrow> model_entry list \<times> world" where
  "profile_loop [] out w = (out, w)"
| "profile_loop (s # ss) out w =
     (case profile_step s out w of (out', w') \<Rightarrow> profile_loop ss out' w')"

text \<open>The outer loop over the pages; an exception of the iterator leaves the function.\<close>

fun page_loop :: "page_stream \<Rightarrow> model_entry list \<Rightarrow> world \<Rightarrow> (error + model_entry list) \<times> world" where
  "page_loop Exhausted out w = (Inr out, w)"
| "page_loop (Raises e) out w = (Inl e, w)"
| "page_loop (Page p rest) out w =
     (case profile_loop (case inferenceProfileSummaries p of None \<Rightarrow> [] | Some ss \<Rightarrow> ss) out w of
        (out', w') \<Rightarrow> page_loop rest out' w')"

definition list_cross_region_profiles :: "world \<Rightarrow> (error + model_entry list) \<times> world" where
  "list_cross_region_profiles w =
     page_loop (pg_results w (pg_calls w)) [] (w\<lparr>pg_calls := Suc (pg_calls w)\<rparr>)"

subsection \<open>\<^verbatim>\<open>_build_models_payload\<close>\<close>

text \<open>The deduplicating loop of lines 96 to 102.\<close>

fun dedup_loop :: "model_entry list \<Rightarrow> string set \<Rightarrow> model_entry list \<Rightarrow> model_entry list" where
  "dedup_loop [] seen acc = acc"
| "dedup_loop (item # items) seen acc =
     (if id_m item \<in> seen then dedup_loop items seen acc
      else dedup_loop items (insert (id_m item) seen) (acc @ [item]))"

text \<open>Lines 92 to 107: the recomputation, run whenever the cached payload is not served.\<close>

definition recompute :: "world \<Rightarrow> (error + payload) \<times> world" where
  "recompute w =
     (case list_foundation_models w of
        (Inl e, w1) \<Rightarrow> (Inl e, w1)
      | (Inr fm_entries, w1) \<Rightarrow>
          (case list_cross_region_profiles w1 of
             (Inl e, w2) \<Rightarrow> (Inl e, w2)
           | (Inr xreg_entries, w2) \<Rightarrow>
               (let p = \<lparr>object_p = ''list'', data = dedup_loop (fm_entries @ xreg_entries) {} []\<rparr>;
                    w3 = w2\<lparr>MODELS_CACHE_data := Some p\<rparr>
                in case now w3 of (t, w4) \<Rightarrow> (Inr p, w4\<lparr>MODELS_CACHE_ts := t\<rparr>))))"

text \<open>
  Lines 85 to 90, then the recomputation. The condition is a short-circuit \<^verbatim>\<open>and\<close>:
  the clock is read only when \<^verbatim>\<open>force_refresh\<close> is false and the cache holds a payload.
  Line 90 returns \<^verbatim>\<open>MODELS_CACHE["data"]\<close>, which is a payload there since it was true as a
  condition; the \<open>None\<close> branch of the inner \<open>case\<close> only makes the function total.
\<close>

definition build_models_payload :: "bool \<Rightarrow> world \<Rightarrow> (error + payload) \<times> world" where
  "build_models_payload force_refresh w =
     (if \<not> force_refresh \<and> truthy_payload (MODELS_CACHE_data w) then
        (case now w of (t, w1) \<Rightarrow>
           if t - MODELS_CACHE_ts w1 < CACHE_TTL_SECONDS
           then (case MODELS_CACHE_data w1 of
                   Some p \<Rightarrow> (Inr p, w1)
                 | None \<Rightarrow> recompute w1)
           else recompute w1)
      else recompute w)"

subsection \<open>Notions used to state the properties\<close>

text \<open>
  The condition of lines 85 to 89: the cached payload is served. Its last conjunct reads
  the clock, so it is evaluated on the reading the call would get.
\<close>

definition serves_cache :: "bool \<Rightarrow> world \<Rightarrow> bool" where
  "serves_cache force_refresh w =
     (\<not> force_refresh \<and> truthy_payload (MODELS_CACHE_data w)
      \<and> fst (now w) - MODELS_CACHE_ts w < CACHE_TTL_SECONDS)"

text \<open>The world once that condition has been evaluated: the clock was read, or not.\<close>

definition after_check :: "bool \<Rightarrow> world \<Rightarrow> world" where
  "after_check force_refresh w =
     (if \<not> force_refresh \<and> truthy_payload (MODELS_CACHE_data w) then snd (now w) else w)"

text \<open>The exception a page iterator ends with, if any, and the summaries it yields before.\<close>

fun stream_error :: "page_stream \<Rightarrow> error option" where
  "stream_error Exhausted = None"
| "stream_error (Raises e) = Some e"
| "stream_error (Page p rest) = stream_error rest"

fun stream_summaries :: "page_stream \<Rightarrow> profile_summary list" where
  "stream_summaries Exhausted = []"
| "stream_summaries (Raises e) = []"
| "stream_summaries (Page p rest) =
     (case inferenceProfileSummaries p of None \<Rightarrow> [] | Some ss \<Rightarrow> ss) @ stream_summaries rest"

text \<open>
  The outcome of the upstream calls of a recomputation started in \<open>w\<close>: the exception of
  the first call that raises, or \<open>None\<close> when both return.
\<close>

definition upstream_failure :: "world \<Rightarrow> error option" where
  "upstream_failure w =
     (case fm_results w (fm_calls w) of
        Inl e \<Rightarrow> Some e
      | Inr resp \<Rightarrow> stream_error (pg_results w (pg_calls w)))"

text \<open>The identifiers a listing record gives rise to, in the order the code appends them.\<close>

fun usable :: "string option \<Rightarrow> string list" where
  "usable None = []"
| "usable (Some s) = (if s = [] then [] else [s])"

definition fm_ids :: "fm_summary \<Rightarrow> string list" where
  "fm_ids m = usable (modelId m)"

definition profile_ids :: "profile_summary \<Rightarrow> string list" where
  "profile_ids s = usable (inferenceProfileId s) @ usable (inferenceProfileArn s)"

text \<open>
  What lines 93 and 94 return in a recomputation started in \<open>w\<close>; the second listing
  runs in the world the first one leaves.
\<close>

definition fm_listed :: "world \<Rightarrow> error + model_entry list" where
  "fm_listed w = fst (list_foundation_models w)"

definition xreg_listed :: "world \<Rightarrow> error + model_entry list" where
  "xreg_listed w = fst (list_cross_region_profiles (snd (list_foundation_models w)))"

subsection \<open>Example worlds\<close>

text \<open>A clock whose readings are 100 seconds apart.\<close>

definition ex_clock :: "nat \<Rightarrow> int" where
  "ex_clock n = 1700000000 + 100 * int n"

text \<open>
  The example of the specification: one base model \<^verbatim>\<open>claude-v2\<close> and one profile with
  the identifier \<^verbatim>\<open>us.claude-v2\<close> and its ARN, without \<^verbatim>\<open>createdAt\<close>.
\<close>

definition spec_fm :: fm_response where
  "spec_fm = \<lparr>modelSummaries = Some [\<lparr>modelId = Some ''claude-v2''\<rparr>]\<rparr>"

definition spec_pages :: page_stream where
  "spec_pages =
     Page \<lparr>inferenceProfileSummaries = Some
             [\<lparr>inferenceProfileId = Some ''us.claude-v2'',
               inferenceProfileArn = Some ''arn:aws:...:us.claude-v2'',
               createdAt = NoCreatedAt\<rparr>]\<rparr>
          Exhausted"

definition spec_world :: world where
  "spec_world = initial_world ex_clock (\<lambda>n. Inr spec_fm) (\<lambda>n. spec_pages)"

text \<open>
  Duplicates: the base listing names \<^verbatim>\<open>m1\<close> twice, and the profile identifier \<^verbatim>\<open>m2\<close>
  collides with a base model; the profile's \<^verbatim>\<open>createdAt.timestamp()\<close> is 5.5.
\<close>

definition dup_world :: world where
  "dup_world = initial_world ex_clock
     (\<lambda>n. Inr \<lparr>modelSummaries = Some
                [\<lparr>modelId = Some ''m1''\<rparr>, \<lparr>modelId = Some ''m2''\<rparr>, \<lparr>modelId = Some ''m1''\<rparr>]\<rparr>)
     (\<lambda>n. Page \<lparr>inferenceProfileSummaries = Some
                  [\<lparr>inferenceProfileId = Some ''m2'', inferenceProfileArn = Some ''arn:m2'',
                    createdAt = Datetime (11 / 2)\<rparr>]\<rparr>
               Exhausted)"

text \<open>The first base listing succeeds, every later one is throttled.\<close>

definition flaky_world :: world where
  "flaky_world = initial_world ex_clock
     (\<lambda>n. if n = 0 then Inr spec_fm else Inl (BotoError ''ThrottlingException''))
     (\<lambda>n. spec_pages)"

text \<open>Nothing usable upstream: identifiers absent or empty, a page without summaries.\<close>

definition empty_world :: world where
  "empty_world = initial_world ex_clock
     (\<lambda>n. Inr \<lparr>modelSummaries = Some [\<lparr>modelId = None\<rparr>, \<lparr>modelId = Some []\<rparr>]\<rparr>)
     (\<lambda>n. Page \<lparr>inferenceProfileSummaries = Some
                  [\<lparr>inferenceProfileId = None, inferenceProfileArn = Some [],
                    createdAt = NoCreatedAt\<rparr>]\<rparr>
              (Page \<lparr>inferenceProfileSummaries = None\<rparr> Exhausted))"

text \<open>
  The payload of the specification's example and the world its first call leaves: three
  clock readings were taken, the last one is the stored \<^verbatim>\<open>ts\<close>.
\<close>

definition spec_payload :: payload where
  "spec_payload =
     \<lparr>object_p = ''list'',
      data = [mk_entry ''claude-v2'' 1700000000,
              mk_entry ''us.claude-v2'' 1700000100,
              mk_entry ''arn:aws:...:us.claude-v2'' 1700000100]\<rparr>"

definition served :: "world \<Rightarrow> world" where
  "served w = w\<lparr>MODELS_CACHE_data := Some spec_payload, MODELS_CACHE_ts := 1700000200,
                now_calls := 3, fm_calls := 1, pg_calls := 1\<rparr>"

text \<open>
  The first profile listing succeeds; every later one raises while fetching its second
  page.
\<close>

definition paging_world :: world where
  "paging_world = initial_world ex_clock
     (\<lambda>n. Inr spec_fm)
     (\<lambda>n. if n = 0 then spec_pages
          else Page \<lparr>inferenceProfileSummaries = Some
                       [\<lparr>inferenceProfileId = Some ''eu.claude-v2'', inferenceProfileArn = None,
                         createdAt = NoCreatedAt\<rparr>]\<rparr>
                    (Raises (BotoError ''ReadTimeoutError'')))"

text \<open>
  A profile whose identifier is the empty string and whose ARN is not, created at
  \<^verbatim>\<open>timestamp()\<close> 5.5, alone on the only page of the profile listing.
\<close>

definition arn_only :: profile_summary where
  "arn_only = \<lparr>inferenceProfileId = Some [],
               inferenceProfileArn = Some ''arn:aws:...:us.claude-v2'',
               createdAt = Datetime (11 / 2)\<rparr>"

definition arn_only_world :: world where
  "arn_only_world = initial_world ex_clock
     (\<lambda>n. Inr spec_fm)
     (\<lambda>n. Page \<lparr>inferenceProfileSummaries = Some [arn_only]\<rparr> Exhausted)"

section \<open>The deduplicating loop\<close>

lemma dedup_loop_acc: "dedup_loop xs seen acc = acc @ dedup_loop xs seen []"
proof (induction xs arbitrary: seen acc)
  case Nil
  show ?case by simp
next
  case (Cons x xs)
  show ?case
  proof (cases "id_m x \<in> seen")
    case True
    then show ?thesis using Cons.IH [of seen acc] by simp
  next
    case False
    then show ?thesis
      using Cons.IH [of "insert (id_m x) seen" "acc @ [x]"] Cons.IH [of "insert (id_m x) seen" "[x]"]
      by simp
  qed
qed

lemma dedup_loop_Cons:
  "dedup_loop (x # xs) seen [] =
     (if id_m x \<in> seen then dedup_loop xs seen [] else x # dedup_loop xs (insert (id_m x) seen) [])"
  using dedup_loop_acc [of xs "insert (id_m x) seen" "[x]"] by simp

lemma dedup_loop_ids: "id_m ` set (dedup_loop xs seen []) = id_m ` set xs - seen"
  by (induction xs arbitrary: seen) (auto simp: dedup_loop_Cons simp del: dedup_loop.simps(2))

lemma dedup_loop_distinct: "distinct (map id_m (dedup_loop xs seen []))"
proof (induction xs arbitrary: seen)
  case Nil
  show ?case by simp
next
  case (Cons x xs)
  have "id_m x \<notin> id_m ` set (dedup_loop xs (insert (id_m x) seen) [])"
    by (simp add: dedup_loop_ids)
  then show ?case using Cons.IH by (simp add: dedup_loop_Cons del: dedup_loop.simps(2))
qed

lemma dedup_loop_find:
  "find (\<lambda>r. id_m r = i) (dedup_loop xs seen []) =
     (if i \<in> seen then None else find (\<lambda>r. id_m r = i) xs)"
proof (induction xs arbitrary: seen)
  case Nil
  show ?case by simp
next
  case (Cons x xs)
  show ?case using Cons.IH [of seen] Cons.IH [of "insert (id_m x) seen"]
    by (auto simp: dedup_loop_Cons simp del: dedup_loop.simps(2))
qed

lemma dedup_loop_subseq: "subseq (dedup_loop xs seen []) xs"
  by (induction xs arbitrary: seen) (auto simp: dedup_loop_Cons simp del: dedup_loop.simps(2))

lemma dedup_loop_same:
  "distinct (map id_m xs) \<Longrightarrow> id_m ` set xs \<inter> seen = {} \<Longrightarrow> dedup_loop xs seen [] = xs"
  by (induction xs arbitrary: seen) (auto simp: dedup_loop_Cons simp del: dedup_loop.simps(2))

lemma dedup_loop_append:
  "dedup_loop (xs @ ys) seen [] = dedup_loop xs seen [] @ dedup_loop ys (seen \<union> id_m ` set xs) []"
proof (induction xs arbitrary: seen)
  case Nil
  show ?case by simp
next
  case (Cons x xs)
  have e: "insert (id_m x) seen \<union> id_m ` set xs = seen \<union> id_m ` set (x # xs)" by auto
  have a: "id_m x \<in> seen \<Longrightarrow> seen \<union> id_m ` set xs = seen \<union> id_m ` set (x # xs)" by auto
  show ?case using Cons.IH [of seen] Cons.IH [of "insert (id_m x) seen"] e a
    by (simp add: dedup_loop_Cons del: dedup_loop.simps(2))
qed

section \<open>What the listings change in the world\<close>

lemma clock_only_refl: "\<exists>n. w = w\<lparr>now_calls := n\<rparr>"
  by (rule exI [of _ "now_calls w"]) simp

lemma clock_only_trans:
  "w1 = w\<lparr>now_calls := k\<rparr> \<Longrightarrow> w2 = w1\<lparr>now_calls := n\<rparr> \<Longrightarrow> \<exists>n. w2 = w\<lparr>now_calls := n\<rparr>"
  by (rule exI [of _ n]) simp

lemma fm_loop_world: "\<exists>n. snd (fm_loop ms out w) = w\<lparr>now_calls := n\<rparr>"
proof (induction ms arbitrary: out w)
  case Nil
  show ?case using clock_only_refl [of w] by simp
next
  case (Cons m ms)
  show ?case
  proof (cases "modelId m")
    case None
    then show ?thesis using Cons.IH [of out w] by simp
  next
    case (Some mid)
    show ?thesis
    proof (cases "mid = []")
      case True
      then show ?thesis using Some Cons.IH [of out w] by simp
    next
      case False
      define w1 where "w1 = w\<lparr>now_calls := Suc (now_calls w)\<rparr>"
      define out1 where "out1 = out @ [mk_entry mid (time_readings w (now_calls w))]"
      obtain n where n: "snd (fm_loop ms out1 w1) = w1\<lparr>now_calls := n\<rparr>"
        using Cons.IH by blast
      have "fm_loop (m # ms) out w = fm_loop ms out1 w1"
        using Some False by (simp add: now_def w1_def out1_def)
      then show ?thesis using clock_only_trans [OF w1_def n] by simp
    qed
  qed
qed

lemma profile_step_world: "\<exists>n. snd (profile_step s out w) = w\<lparr>now_calls := n\<rparr>"
proof (cases "createdAt s")
  case (Datetime r)
  then show ?thesis using clock_only_refl [of w] by (simp add: profile_step_def)
next
  case NoCreatedAt
  then have "snd (profile_step s out w) = w\<lparr>now_calls := Suc (now_calls w)\<rparr>"
    by (simp add: profile_step_def now_def)
  then show ?thesis by blast
next
  case NotTimeLike
  then have "snd (profile_step s out w) = w\<lparr>now_calls := Suc (now_calls w)\<rparr>"
    by (simp add: profile_step_def now_def)
  then show ?thesis by blast
qed

lemma profile_loop_world: "\<exists>n. snd (profile_loop ss out w) = w\<lparr>now_calls := n\<rparr>"
proof (induction ss arbitrary: out w)
  case Nil
  show ?case using clock_only_refl [of w] by simp
next
  case (Cons s ss)
  obtain out' w' where st: "profile_step s out w = (out', w')" by (cases "profile_step s out w")
  obtain k where k: "w' = w\<lparr>now_calls := k\<rparr>" using profile_step_world [of s out w] st by auto
  obtain n where n: "snd (profile_loop ss out' w') = w'\<lparr>now_calls := n\<rparr>" using Cons.IH by blast
  show ?case using st clock_only_trans [OF k n] by simp
qed

lemma page_loop_world: "\<exists>n. snd (page_loop ps out w) = w\<lparr>now_calls := n\<rparr>"
proof (induction ps arbitrary: out w)
  case Exhausted
  show ?case using clock_only_refl [of w] by simp
next
  case (Raises e)
  show ?case using clock_only_refl [of w] by simp
next
  case (Page p rest)
  define ss where "ss = (case inferenceProfileSummaries p of None \<Rightarrow> [] | Some ss \<Rightarrow> ss)"
  obtain out' w' where st: "profile_loop ss out w = (out', w')" by (cases "profile_loop ss out w")
  obtain k where k: "w' = w\<lparr>now_calls := k\<rparr>" using profile_loop_world [of ss out w] st by auto
  obtain n where n: "snd (page_loop rest out' w') = w'\<lparr>now_calls := n\<rparr>" using Page.IH by blast
  have "page_loop (Page p rest) out w = page_loop rest out' w'"
    using st by (simp add: ss_def)
  then show ?case using clock_only_trans [OF k n] by simp
qed

lemma list_foundation_models_world:
  "\<exists>n. snd (list_foundation_models w) = w\<lparr>fm_calls := Suc (fm_calls w), now_calls := n\<rparr>"
proof (cases "fm_results w (fm_calls w)")
  case (Inl e)
  then have "snd (list_foundation_models w) = w\<lparr>fm_calls := Suc (fm_calls w)\<rparr>"
    by (simp add: list_foundation_models_def)
  then show ?thesis using clock_only_refl [of "w\<lparr>fm_calls := Suc (fm_calls w)\<rparr>"] by simp
next
  case (Inr resp)
  define ms where "ms = (case modelSummaries resp of None \<Rightarrow> [] | Some ms \<Rightarrow> ms)"
  define w1 where "w1 = w\<lparr>fm_calls := Suc (fm_calls w)\<rparr>"
  have "snd (list_foundation_models w) = snd (fm_loop ms [] w1)"
    using Inr by (simp add: list_foundation_models_def ms_def w1_def split: prod.splits)
  then show ?thesis using fm_loop_world [of ms "[]" w1] by (simp add: w1_def)
qed

lemma list_cross_region_profiles_world:
  "\<exists>n. snd (list_cross_region_profiles w) = w\<lparr>pg_calls := Suc (pg_calls w), now_calls := n\<rparr>"
  using page_loop_world [of "pg_results w (pg_calls w)" "[]" "w\<lparr>pg_calls := Suc (pg_calls w)\<rparr>"]
  by (simp add: list_cross_region_profiles_def)

lemma page_loop_result:
  "fst (page_loop ps out w) = Inl e \<longleftrightarrow> stream_error ps = Some e"
proof (induction ps arbitrary: out w)
  case (Page p rest)
  then show ?case by (auto split: prod.splits)
qed auto

lemma build_models_payload_cases:
  "build_models_payload force w =
     (if serves_cache force w
      then (case MODELS_CACHE_data w of Some p \<Rightarrow> (Inr p, after_check force w) | None \<Rightarrow> recompute w)
      else recompute (after_check force w))"
  by (cases "MODELS_CACHE_data w")
     (auto simp: build_models_payload_def serves_cache_def after_check_def now_def)

section \<open>The recomputation\<close>

lemma list_foundation_models_Inl:
  "fst (list_foundation_models w) = Inl e \<longleftrightarrow> fm_results w (fm_calls w) = Inl e"
  by (cases "fm_results w (fm_calls w)")
     (auto simp: list_foundation_models_def split: prod.splits)

lemma list_cross_region_profiles_Inl:
  "fst (list_cross_region_profiles w) = Inl e \<longleftrightarrow> stream_error (pg_results w (pg_calls w)) = Some e"
  by (simp add: list_cross_region_profiles_def page_loop_result)

lemma xreg_listed_Inl:
  "xreg_listed w = Inl e \<longleftrightarrow> stream_error (pg_results w (pg_calls w)) = Some e"
proof -
  obtain n where "snd (list_foundation_models w) = w\<lparr>fm_calls := Suc (fm_calls w), now_calls := n\<rparr>"
    using list_foundation_models_world by blast
  then show ?thesis by (simp add: xreg_listed_def list_cross_region_profiles_Inl)
qed

lemma recompute_fm_fails:
  assumes "fm_listed w = Inl e"
  shows "\<exists>n. recompute w = (Inl e, w\<lparr>fm_calls := Suc (fm_calls w), now_calls := n\<rparr>)"
proof -
  obtain n where n: "snd (list_foundation_models w) = w\<lparr>fm_calls := Suc (fm_calls w), now_calls := n\<rparr>"
    using list_foundation_models_world by blast
  have "list_foundation_models w = (Inl e, w\<lparr>fm_calls := Suc (fm_calls w), now_calls := n\<rparr>)"
    using assms n by (simp add: fm_listed_def prod_eq_iff)
  then have "recompute w = (Inl e, w\<lparr>fm_calls := Suc (fm_calls w), now_calls := n\<rparr>)"
    by (simp add: recompute_def)
  then show ?thesis by blast
qed

lemma recompute_xreg_fails:
  assumes "fm_listed w = Inr fm" and "xreg_listed w = Inl e"
  shows "\<exists>n. recompute w =
           (Inl e, w\<lparr>fm_calls := Suc (fm_calls w), pg_calls := Suc (pg_calls w), now_calls := n\<rparr>)"
proof -
  obtain k where k: "snd (list_foundation_models w) = w\<lparr>fm_calls := Suc (fm_calls w), now_calls := k\<rparr>"
    using list_foundation_models_world by blast
  define w1 where "w1 = w\<lparr>fm_calls := Suc (fm_calls w), now_calls := k\<rparr>"
  have fm: "list_foundation_models w = (Inr fm, w1)"
    using assms(1) k by (simp add: fm_listed_def prod_eq_iff w1_def)
  obtain n where n: "snd (list_cross_region_profiles w1) = w1\<lparr>pg_calls := Suc (pg_calls w1), now_calls := n\<rparr>"
    using list_cross_region_profiles_world by blast
  have "fst (list_cross_region_profiles w1) = Inl e"
    using assms(2) fm by (simp add: xreg_listed_def)
  then have xr: "list_cross_region_profiles w1 = (Inl e, w1\<lparr>pg_calls := Suc (pg_calls w1), now_calls := n\<rparr>)"
    using n by (simp add: prod_eq_iff)
  have "recompute w = (Inl e, w1\<lparr>pg_calls := Suc (pg_calls w1), now_calls := n\<rparr>)"
    using fm xr by (simp add: recompute_def)
  then have "recompute w =
           (Inl e, w\<lparr>fm_calls := Suc (fm_calls w), pg_calls := Suc (pg_calls w), now_calls := n\<rparr>)"
    by (simp add: w1_def)
  then show ?thesis by blast
qed

lemma recompute_succeeds:
  assumes "fm_listed w = Inr fm" and "xreg_listed w = Inr xr"
  shows "\<exists>n. recompute w =
           (Inr \<lparr>object_p = ''list'', data = dedup_loop (fm @ xr) {} []\<rparr>,
            w\<lparr>fm_calls := Suc (fm_calls w), pg_calls := Suc (pg_calls w),
              MODELS_CACHE_data := Some \<lparr>object_p = ''list'', data = dedup_loop (fm @ xr) {} []\<rparr>,
              MODELS_CACHE_ts := time_readings w n, now_calls := Suc n\<rparr>)"
proof -
  obtain k where k: "snd (list_foundation_models w) = w\<lparr>fm_calls := Suc (fm_calls w), now_calls := k\<rparr>"
    using list_foundation_models_world by blast
  define w1 where "w1 = w\<lparr>fm_calls := Suc (fm_calls w), now_calls := k\<rparr>"
  have fm: "list_foundation_models w = (Inr fm, w1)"
    using assms(1) k by (simp add: fm_listed_def prod_eq_iff w1_def)
  obtain n where n: "snd (list_cross_region_profiles w1) = w1\<lparr>pg_calls := Suc (pg_calls w1), now_calls := n\<rparr>"
    using list_cross_region_profiles_world by blast
  have "fst (list_cross_region_profiles w1) = Inr xr"
    using assms(2) fm by (simp add: xreg_listed_def)
  then have xr: "list_cross_region_profiles w1 = (Inr xr, w1\<lparr>pg_calls := Suc (pg_calls w1), now_calls := n\<rparr>)"
    using n by (simp add: prod_eq_iff)
  have "recompute w =
           (Inr \<lparr>object_p = ''list'', data = dedup_loop (fm @ xr) {} []\<rparr>,
            w\<lparr>fm_calls := Suc (fm_calls w), pg_calls := Suc (pg_calls w),
              MODELS_CACHE_data := Some \<lparr>object_p = ''list'', data = dedup_loop (fm @ xr) {} []\<rparr>,
              MODELS_CACHE_ts := time_readings w n, now_calls := Suc n\<rparr>)"
    using fm xr by (simp add: recompute_def now_def w1_def Let_def)
  then show ?thesis by blast
qed

lemma recompute_Inl: "fst (recompute w) = Inl e \<longleftrightarrow> upstream_failure w = Some e"
proof (cases "fm_listed w")
  case (Inl e')
  then have a: "fm_results w (fm_calls w) = Inl e'"
    by (simp add: fm_listed_def list_foundation_models_Inl)
  obtain n where "recompute w = (Inl e', w\<lparr>fm_calls := Suc (fm_calls w), now_calls := n\<rparr>)"
    using recompute_fm_fails [OF Inl] by blast
  then show ?thesis using a by (simp add: upstream_failure_def)
next
  case (Inr fm)
  have "fm_results w (fm_calls w) \<noteq> Inl e'" for e'
    using Inr list_foundation_models_Inl [of w e'] by (simp add: fm_listed_def)
  then obtain resp where a: "fm_results w (fm_calls w) = Inr resp"
    by (cases "fm_results w (fm_calls w)") auto
  show ?thesis
  proof (cases "xreg_listed w")
    case (Inl e')
    then have b: "stream_error (pg_results w (pg_calls w)) = Some e'"
      by (simp add: xreg_listed_Inl)
    obtain n where "recompute w =
        (Inl e', w\<lparr>fm_calls := Suc (fm_calls w), pg_calls := Suc (pg_calls w), now_calls := n\<rparr>)"
      using recompute_xreg_fails [OF Inr Inl] by blast
    then show ?thesis using a b by (simp add: upstream_failure_def)
  next
    case (Inr xr)
    have "stream_error (pg_results w (pg_calls w)) \<noteq> Some e'" for e'
      using Inr xreg_listed_Inl [of w e'] by simp
    then have b: "stream_error (pg_results w (pg_calls w)) \<noteq> Some e" by simp
    obtain w' where "recompute w = (Inr \<lparr>object_p = ''list'', data = dedup_loop (fm @ xr) {} []\<rparr>, w')"
      using recompute_succeeds [OF \<open>fm_listed w = Inr fm\<close> Inr] by blast
    then show ?thesis using a b by (simp add: upstream_failure_def)
  qed
qed

lemma recompute_Inl_cache:
  assumes "fst (recompute w) = Inl e"
  shows "MODELS_CACHE_data (snd (recompute w)) = MODELS_CACHE_data w
         \<and> MODELS_CACHE_ts (snd (recompute w)) = MODELS_CACHE_ts w
         \<and> time_readings (snd (recompute w)) = time_readings w
         \<and> fm_results (snd (recompute w)) = fm_results w
         \<and> pg_results (snd (recompute w)) = pg_results w"
proof (cases "fm_listed w")
  case (Inl e')
  obtain n where "recompute w = (Inl e', w\<lparr>fm_calls := Suc (fm_calls w), now_calls := n\<rparr>)"
    using recompute_fm_fails [OF Inl] by blast
  then show ?thesis by simp
next
  case (Inr fm)
  show ?thesis
  proof (cases "xreg_listed w")
    case (Inl e')
    obtain n where "recompute w =
        (Inl e', w\<lparr>fm_calls := Suc (fm_calls w), pg_calls := Suc (pg_calls w), now_calls := n\<rparr>)"
      using recompute_xreg_fails [OF Inr Inl] by blast
    then show ?thesis by simp
  next
    case (Inr xr)
    obtain w' where "recompute w = (Inr \<lparr>object_p = ''list'', data = dedup_loop (fm @ xr) {} []\<rparr>, w')"
      using recompute_succeeds [OF \<open>fm_listed w = Inr fm\<close> Inr] by blast
    then show ?thesis using assms by simp
  qed
qed

lemma after_check_world:
  "after_check force w = w \<or> after_check force w = w\<lparr>now_calls := Suc (now_calls w)\<rparr>"
  by (simp add: after_check_def now_def)

section \<open>Calls of \<^verbatim>\<open>_build_models_payload\<close> and the identifiers of the listings\<close>

lemma build_hit:
  assumes "MODELS_CACHE_data w = Some p"
    and "time_readings w (now_calls w) - MODELS_CACHE_ts w < 300"
  shows "build_models_payload False w = (Inr p, w\<lparr>now_calls := Suc (now_calls w)\<rparr>)"
  using assms by (simp add: build_models_payload_def now_def CACHE_TTL_SECONDS_def)

lemma build_stale:
  assumes "MODELS_CACHE_data w = Some p"
    and "300 \<le> time_readings w (now_calls w) - MODELS_CACHE_ts w"
  shows "build_models_payload False w = recompute (w\<lparr>now_calls := Suc (now_calls w)\<rparr>)"
  using assms by (simp add: build_models_payload_def now_def CACHE_TTL_SECONDS_def)

lemma build_forced: "build_models_payload True w = recompute w"
  by (simp add: build_models_payload_def)

lemma build_empty: "MODELS_CACHE_data w = None \<Longrightarrow> build_models_payload force w = recompute w"
  by (simp add: build_models_payload_def)

lemma build_recomputes:
  "\<not> serves_cache force w \<Longrightarrow> build_models_payload force w = recompute (after_check force w)"
  by (simp add: build_models_payload_cases)

lemma recompute_calls:
  "fm_calls (snd (recompute w)) = Suc (fm_calls w)
   \<and> pg_calls (snd (recompute w)) =
       (case fm_results w (fm_calls w) of Inl e \<Rightarrow> pg_calls w | Inr resp \<Rightarrow> Suc (pg_calls w))"
proof (cases "fm_listed w")
  case (Inl e)
  then have a: "fm_results w (fm_calls w) = Inl e"
    by (simp add: fm_listed_def list_foundation_models_Inl)
  obtain n where "recompute w = (Inl e, w\<lparr>fm_calls := Suc (fm_calls w), now_calls := n\<rparr>)"
    using recompute_fm_fails [OF Inl] by blast
  then show ?thesis using a by simp
next
  case (Inr fm)
  have "fm_results w (fm_calls w) \<noteq> Inl e" for e
    using Inr list_foundation_models_Inl [of w e] by (simp add: fm_listed_def)
  then obtain resp where a: "fm_results w (fm_calls w) = Inr resp"
    by (cases "fm_results w (fm_calls w)") auto
  show ?thesis
  proof (cases "xreg_listed w")
    case (Inl e)
    obtain n where "recompute w =
        (Inl e, w\<lparr>fm_calls := Suc (fm_calls w), pg_calls := Suc (pg_calls w), now_calls := n\<rparr>)"
      using recompute_xreg_fails [OF \<open>fm_listed w = Inr fm\<close> Inl] by blast
    then show ?thesis using a by simp
  next
    case (Inr xr)
    obtain n where "recompute w =
           (Inr \<lparr>object_p = ''list'', data = dedup_loop (fm @ xr) {} []\<rparr>,
            w\<lparr>fm_calls := Suc (fm_calls w), pg_calls := Suc (pg_calls w),
              MODELS_CACHE_data := Some \<lparr>object_p = ''list'', data = dedup_loop (fm @ xr) {} []\<rparr>,
              MODELS_CACHE_ts := time_readings w n, now_calls := Suc n\<rparr>)"
      using recompute_succeeds [OF \<open>fm_listed w = Inr fm\<close> Inr] by blast
    then show ?thesis using a by simp
  qed
qed

lemma recompute_Inr_listed:
  assumes "recompute w = (Inr p, w')"
  shows "\<exists>fm xr. fm_listed w = Inr fm \<and> xreg_listed w = Inr xr"
proof (cases "fm_listed w")
  case (Inl e)
  then show ?thesis using recompute_fm_fails [OF Inl] assms by auto
next
  case (Inr fm)
  show ?thesis
  proof (cases "xreg_listed w")
    case (Inl e)
    then show ?thesis using recompute_xreg_fails [OF Inr Inl] assms by auto
  next
    case (Inr xr)
    then show ?thesis using \<open>fm_listed w = Inr fm\<close> by blast
  qed
qed

lemma upstream_failure_after_check:
  "upstream_failure (after_check force w) = upstream_failure w"
  by (simp add: upstream_failure_def after_check_def now_def split: sum.splits)

lemma fm_loop_ids:
  "map id_m (fst (fm_loop ms out w)) = map id_m out @ concat (map fm_ids ms)"
proof (induction ms arbitrary: out w)
  case Nil
  show ?case by simp
next
  case (Cons m ms)
  show ?case
  proof (cases "modelId m")
    case None
    then show ?thesis using Cons.IH [of out w] by (simp add: fm_ids_def)
  next
    case (Some mid)
    then show ?thesis
      using Cons.IH [of out w]
        Cons.IH [of "out @ [mk_entry mid (time_readings w (now_calls w))]" "w\<lparr>now_calls := Suc (now_calls w)\<rparr>"]
      by (simp add: fm_ids_def now_def mk_entry_def)
  qed
qed

lemma append_if_usable: "append_if x c out = out @ map (\<lambda>i. mk_entry i c) (usable x)"
  by (cases x) auto

lemma profile_step_entries:
  "fst (profile_step s out w) =
     out @ map (\<lambda>i. mk_entry i (case createdAt s of Datetime r \<Rightarrow> py_int r
                                  | NoCreatedAt \<Rightarrow> fst (now w) | NotTimeLike \<Rightarrow> fst (now w)))
             (profile_ids s)"
  by (cases "createdAt s") (simp_all add: profile_step_def profile_ids_def append_if_usable now_def)

lemma profile_step_ids: "map id_m (fst (profile_step s out w)) = map id_m out @ profile_ids s"
  by (simp add: profile_step_entries mk_entry_def comp_def)

lemma profile_loop_ids:
  "map id_m (fst (profile_loop ss out w)) = map id_m out @ concat (map profile_ids ss)"
proof (induction ss arbitrary: out w)
  case Nil
  show ?case by simp
next
  case (Cons s ss)
  obtain out' w' where st: "profile_step s out w = (out', w')" by (cases "profile_step s out w")
  have "map id_m out' = map id_m out @ profile_ids s"
    using profile_step_ids [of s out w] st by simp
  then show ?case using Cons.IH [of out' w'] st by simp
qed

lemma page_loop_ids:
  "stream_error ps = None \<Longrightarrow>
   \<exists>res. fst (page_loop ps out w) = Inr res
        \<and> map id_m res = map id_m out @ concat (map profile_ids (stream_summaries ps))"
proof (induction ps arbitrary: out w)
  case Exhausted
  show ?case by simp
next
  case (Raises e)
  then show ?case by simp
next
  case (Page p rest)
  define ss where "ss = (case inferenceProfileSummaries p of None \<Rightarrow> [] | Some ss \<Rightarrow> ss)"
  obtain out' w' where st: "profile_loop ss out w = (out', w')" by (cases "profile_loop ss out w")
  have o: "map id_m out' = map id_m out @ concat (map profile_ids ss)"
    using profile_loop_ids [of ss out w] st by simp
  have e: "stream_error rest = None" using Page.prems by simp
  obtain res where "fst (page_loop rest out' w') = Inr res"
    and "map id_m res = map id_m out' @ concat (map profile_ids (stream_summaries rest))"
    using Page.IH [OF e, of out' w'] by blast
  then show ?case using st o by (simp add: ss_def)
qed

lemma filter_id_length:
  "distinct (map f xs) \<Longrightarrow> i \<in> f ` set xs \<Longrightarrow> length (filter (\<lambda>r. f r = i) xs) = 1"
proof (induction xs)
  case Nil
  then show ?case by simp
next
  case (Cons x xs)
  show ?case
  proof (cases "f x = i")
    case True
    have "f x \<notin> f ` set xs" using Cons.prems(1) by simp
    then have "\<forall>y\<in>set xs. f y \<noteq> i" using True by blast
    then have "filter (\<lambda>r. f r = i) xs = []"
      by (simp add: filter_empty_conv)
    then show ?thesis using True by simp
  next
    case False
    then show ?thesis using Cons by auto
  qed
qed

lemma py_int_bounds: "0 \<le> r \<Longrightarrow> of_int (py_int r) \<le> r \<and> r < of_int (py_int r) + 1"
  using floor_correct [of r] by (simp add: py_int_def)

section \<open>Evaluating the example worlds\<close>

lemmas run_defs =
  build_models_payload_def recompute_def list_foundation_models_def
  list_cross_region_profiles_def now_def profile_step_def mk_entry_def Let_def
  initial_world_def serves_cache_def after_check_def fm_listed_def xreg_listed_def
  CACHE_TTL_SECONDS_def ex_clock_def spec_fm_def spec_pages_def

lemma py_int_example: "py_int (11 / 2) = 5"
  by (simp add: py_int_def floor_eq_iff)

lemma spec_world_first_call:
  "build_models_payload False spec_world = (Inr spec_payload, served spec_world)"
  by (simp add: spec_world_def spec_payload_def served_def run_defs)

lemma flaky_world_first_call:
  "build_models_payload False flaky_world = (Inr spec_payload, served flaky_world)"
  by (simp add: flaky_world_def spec_payload_def served_def run_defs)

lemma paging_world_first_call:
  "build_models_payload False paging_world = (Inr spec_payload, served paging_world)"
  by (simp add: paging_world_def spec_payload_def served_def run_defs)

lemma after_check_cache:
  "MODELS_CACHE_data (after_check force w) = MODELS_CACHE_data w
   \<and> MODELS_CACHE_ts (after_check force w) = MODELS_CACHE_ts w"
  by (simp add: after_check_def now_def)

lemma list_foundation_models_ids:
  assumes "fm_results w (fm_calls w) = Inr resp"
  shows "\<exists>fm. fst (list_foundation_models w) = Inr fm
            \<and> map id_m fm = concat (map fm_ids (case modelSummaries resp of None \<Rightarrow> [] | Some ms \<Rightarrow> ms))"
proof -
  define ms where "ms = (case modelSummaries resp of None \<Rightarrow> [] | Some ms \<Rightarrow> ms)"
  define w1 where "w1 = w\<lparr>fm_calls := Suc (fm_calls w)\<rparr>"
  have "fst (list_foundation_models w) = Inr (fst (fm_loop ms [] w1))"
    using assms by (simp add: list_foundation_models_def ms_def w1_def split: prod.splits)
  moreover have "map id_m (fst (fm_loop ms [] w1)) = concat (map fm_ids ms)"
    using fm_loop_ids [of ms "[]" w1] by simp
  ultimately show ?thesis by (simp add: ms_def)
qed

lemma list_cross_region_profiles_ids:
  assumes "stream_error (pg_results w (pg_calls w)) = None"
  shows "\<exists>xr. fst (list_cross_region_profiles w) = Inr xr
            \<and> map id_m xr = concat (map profile_ids (stream_summaries (pg_results w (pg_calls w))))"
  using page_loop_ids [OF assms, of "[]" "w\<lparr>pg_calls := Suc (pg_calls w)\<rparr>"]
  by (simp add: list_cross_region_profiles_def)

lemma fm_listed_ids:
  assumes "fm_listed w = Inr fm" and "fm_results w (fm_calls w) = Inr resp"
  shows "map id_m fm = concat (map fm_ids (case modelSummaries resp of None \<Rightarrow> [] | Some ms \<Rightarrow> ms))"
  using list_foundation_models_ids [OF assms(2)] assms(1) by (auto simp: fm_listed_def)

lemma xreg_listed_ids:
  assumes "xreg_listed w = Inr xr"
  shows "map id_m xr = concat (map profile_ids (stream_summaries (pg_results w (pg_calls w))))"
proof -
  obtain n where n: "snd (list_foundation_models w) = w\<lparr>fm_calls := Suc (fm_calls w), now_calls := n\<rparr>"
    using list_foundation_models_world by blast
  define w1 where "w1 = w\<lparr>fm_calls := Suc (fm_calls w), now_calls := n\<rparr>"
  have x: "fst (list_cross_region_profiles w1) = Inr xr"
    using assms n by (simp add: xreg_listed_def w1_def)
  have "stream_error (pg_results w1 (pg_calls w1)) \<noteq> Some e" for e
    using x list_cross_region_profiles_Inl [of w1 e] by simp
  then have "stream_error (pg_results w1 (pg_calls w1)) = None"
    by (cases "stream_error (pg_results w1 (pg_calls w1))") auto
  then show ?thesis
    using list_cross_region_profiles_ids [of w1] x by (auto simp: w1_def)
qed

lemma after_check_upstream:
  "fm_results (after_check force w) = fm_results w \<and> fm_calls (after_check force w) = fm_calls w
   \<and> pg_results (after_check force w) = pg_results w \<and> pg_calls (after_check force w) = pg_calls w"
  by (simp add: after_check_def now_def)

lemma filter_find_distinct:
  "distinct (map f xs) \<Longrightarrow> find (\<lambda>r. f r = i) xs = Some b \<Longrightarrow> filter (\<lambda>r. f r = i) xs = [b]"
proof (induction xs)
  case Nil
  then show ?case by simp
next
  case (Cons x xs)
  show ?case
  proof (cases "f x = i")
    case True
    have "f x \<notin> f ` set xs" using Cons.prems(1) by simp
    then have "\<forall>y\<in>set xs. f y \<noteq> i" using True by blast
    then have "filter (\<lambda>r. f r = i) xs = []" by (simp add: filter_empty_conv)
    then show ?thesis using True Cons.prems(2) by simp
  next
    case False
    then show ?thesis using Cons by simp
  qed
qed

lemma find_in_ids:
  "i \<in> f ` set xs \<Longrightarrow> \<exists>b. find (\<lambda>r. f r = i) xs = Some b \<and> b \<in> set xs \<and> f b = i"
proof (induction xs)
  case Nil
  then show ?case by simp
next
  case (Cons x xs)
  then show ?case by (cases "f x = i") auto
qed

lemma find_append_first:
  "find P xs = Some b \<Longrightarrow> find P (xs @ ys) = Some b"
  by (induction xs) (auto split: if_splits)

lemma profile_step_explicit:
  "fst (profile_step s out w) =
     out @ (if truthy (inferenceProfileId s)
            then [mk_entry (the (inferenceProfileId s))
                   (case createdAt s of Datetime r \<Rightarrow> py_int r
                    | NoCreatedAt \<Rightarrow> fst (now w) | NotTimeLike \<Rightarrow> fst (now w))]
            else [])
         @ (if truthy (inferenceProfileArn s)
            then [mk_entry (the (inferenceProfileArn s))
                   (case createdAt s of Datetime r \<Rightarrow> py_int r
                    | NoCreatedAt \<Rightarrow> fst (now w) | NotTimeLike \<Rightarrow> fst (now w))]
            else [])"
  by (cases "inferenceProfileId s"; cases "inferenceProfileArn s")
     (simp_all add: profile_step_entries profile_ids_def)

lemma list_cross_region_profiles_single:
  assumes "pg_results w (pg_calls w) = Page \<lparr>inferenceProfileSummaries = Some [s]\<rparr> Exhausted"
  shows "fst (list_cross_region_profiles w) =
           Inr (fst (profile_step s [] (w\<lparr>pg_calls := Suc (pg_calls w)\<rparr>)))"
  using assms by (simp add: list_cross_region_profiles_def split: prod.splits)

lemma now_pg_calls: "fst (now (w\<lparr>pg_calls := k\<rparr>)) = fst (now w)"
  by (simp add: now_def)

section \<open>The claims\<close>

text \<open>
  C1. Every call of \<^verbatim>\<open>_build_models_payload\<close> that recomputes and succeeds returns a
  payload whose \<open>data\<close> holds no two records with the same \<open>id\<close>. Whenever both
  listings return, the call succeeds (duplicates raise nothing), and for every identifier
  the record of the payload with that identifier is the first one produced with it, the
  base listing before the profile listing; the payload keeps the production order.
\<close>

theorem dedup_invariant:
  assumes "\<not> serves_cache force_refresh w"
  shows "(\<forall>p w'. build_models_payload force_refresh w = (Inr p, w') \<longrightarrow> distinct (map id_m (data p)))
       \<and> (\<forall>fm xr. fm_listed (after_check force_refresh w) = Inr fm
                 \<and> xreg_listed (after_check force_refresh w) = Inr xr \<longrightarrow>
            (\<exists>p w'. build_models_payload force_refresh w = (Inr p, w')
                 \<and> distinct (map id_m (data p))
                 \<and> (\<forall>i. find (\<lambda>r. id_m r = i) (data p) = find (\<lambda>r. id_m r = i) (fm @ xr))
                 \<and> subseq (data p) (fm @ xr)))"
proof -
  define w0 where "w0 = after_check force_refresh w"
  have b: "build_models_payload force_refresh w = recompute w0"
    using assms by (simp add: build_recomputes w0_def)
  have ok: "\<exists>p w'. recompute w0 = (Inr p, w')
                 \<and> distinct (map id_m (data p))
                 \<and> (\<forall>i. find (\<lambda>r. id_m r = i) (data p) = find (\<lambda>r. id_m r = i) (fm @ xr))
                 \<and> subseq (data p) (fm @ xr)"
    if l: "fm_listed w0 = Inr fm" "xreg_listed w0 = Inr xr" for fm xr
  proof -
    obtain w' where "recompute w0 = (Inr \<lparr>object_p = ''list'', data = dedup_loop (fm @ xr) {} []\<rparr>, w')"
      using recompute_succeeds [OF l] by blast
    then show ?thesis
      by (simp add: dedup_loop_distinct dedup_loop_find dedup_loop_subseq)
  qed
  have "distinct (map id_m (data p))" if r: "recompute w0 = (Inr p, w')" for p w'
  proof -
    obtain fm xr where "fm_listed w0 = Inr fm" and "xreg_listed w0 = Inr xr"
      using recompute_Inr_listed [OF r] by blast
    then show ?thesis using ok [of fm xr] r by auto
  qed
  then show ?thesis using ok b by (simp add: w0_def)
qed

text \<open>
  In \<open>dup_world\<close> five records are produced, two of them with an identifier already seen;
  three are kept.
\<close>

theorem dedup_invariant_witness:
  "\<not> serves_cache False dup_world
   \<and> fm_listed (after_check False dup_world) =
       Inr [mk_entry ''m1'' 1700000000, mk_entry ''m2'' 1700000100, mk_entry ''m1'' 1700000200]
   \<and> xreg_listed (after_check False dup_world) = Inr [mk_entry ''m2'' 5, mk_entry ''arn:m2'' 5]
   \<and> fst (build_models_payload False dup_world) =
       Inr \<lparr>object_p = ''list'',
            data = [mk_entry ''m1'' 1700000000, mk_entry ''m2'' 1700000100, mk_entry ''arn:m2'' 5]\<rparr>
   \<and> (\<exists>p w'. build_models_payload False dup_world = (Inr p, w') \<and> distinct (map id_m (data p)))"
proof -
  have h: "\<not> serves_cache False dup_world"
    by (simp add: dup_world_def run_defs py_int_example)
  have f: "fm_listed (after_check False dup_world) =
       Inr [mk_entry ''m1'' 1700000000, mk_entry ''m2'' 1700000100, mk_entry ''m1'' 1700000200]"
    by (simp add: dup_world_def run_defs py_int_example)
  have x: "xreg_listed (after_check False dup_world) = Inr [mk_entry ''m2'' 5, mk_entry ''arn:m2'' 5]"
    by (simp add: dup_world_def run_defs py_int_example)
  have r: "fst (build_models_payload False dup_world) =
       Inr \<lparr>object_p = ''list'',
            data = [mk_entry ''m1'' 1700000000, mk_entry ''m2'' 1700000100, mk_entry ''arn:m2'' 5]\<rparr>"
    by (simp add: dup_world_def run_defs py_int_example)
  show ?thesis using dedup_invariant [OF h] h f x r by blast
qed

text \<open>
  C2. A call with \<^verbatim>\<open>force_refresh=False\<close> on a cache that holds a payload: when the clock
  reading of the call is less than 300 seconds after the stored \<^verbatim>\<open>ts\<close>, the call returns
  the stored payload and changes nothing but the count of clock readings, so no upstream
  call is made; when it is 300 seconds or more after, the call is one run of the
  recomputation: one call of the base listing and, once that has returned, one of the
  profile listing.
\<close>

theorem ttl_correctness:
  assumes "MODELS_CACHE_data w = Some p"
  shows "(fst (now w) - MODELS_CACHE_ts w < 300 \<longrightarrow>
            build_models_payload False w = (Inr p, w\<lparr>now_calls := Suc (now_calls w)\<rparr>))
       \<and> (300 \<le> fst (now w) - MODELS_CACHE_ts w \<longrightarrow>
            build_models_payload False w = recompute (snd (now w))
            \<and> fm_calls (snd (build_models_payload False w)) = Suc (fm_calls w)
            \<and> pg_calls (snd (build_models_payload False w)) =
                (case fm_results w (fm_calls w) of
                   Inl e \<Rightarrow> pg_calls w | Inr resp \<Rightarrow> Suc (pg_calls w)))"
proof -
  have hit: "build_models_payload False w = (Inr p, w\<lparr>now_calls := Suc (now_calls w)\<rparr>)"
    if "fst (now w) - MODELS_CACHE_ts w < 300"
    using that assms build_hit [of w p] by (simp add: now_def)
  have stale: "build_models_payload False w = recompute (snd (now w))"
    if "300 \<le> fst (now w) - MODELS_CACHE_ts w"
    using that assms build_stale [of w p] by (simp add: now_def)
  have calls: "fm_calls (snd (recompute (snd (now w)))) = Suc (fm_calls w)
       \<and> pg_calls (snd (recompute (snd (now w)))) =
           (case fm_results w (fm_calls w) of Inl e \<Rightarrow> pg_calls w | Inr resp \<Rightarrow> Suc (pg_calls w))"
    using recompute_calls [of "snd (now w)"] by (simp add: now_def split: sum.splits)
  show ?thesis using hit stale calls by simp
qed

theorem ttl_correctness_witness:
  "MODELS_CACHE_data (served spec_world) = Some spec_payload
   \<and> fst (now (served spec_world)) - MODELS_CACHE_ts (served spec_world) = 100
   \<and> build_models_payload False (served spec_world)
       = (Inr spec_payload, (served spec_world)\<lparr>now_calls := 4\<rparr>)
   \<and> MODELS_CACHE_data ((served spec_world)\<lparr>now_calls := 5\<rparr>) = Some spec_payload
   \<and> fst (now ((served spec_world)\<lparr>now_calls := 5\<rparr>))
       - MODELS_CACHE_ts ((served spec_world)\<lparr>now_calls := 5\<rparr>) = 300
   \<and> fm_calls (snd (build_models_payload False ((served spec_world)\<lparr>now_calls := 5\<rparr>))) = 2
   \<and> pg_calls (snd (build_models_payload False ((served spec_world)\<lparr>now_calls := 5\<rparr>))) = 2"
proof -
  have d: "MODELS_CACHE_data (served spec_world) = Some spec_payload"
    by (simp add: served_def)
  have t: "fst (now (served spec_world)) - MODELS_CACHE_ts (served spec_world) = 100"
    by (simp add: served_def spec_world_def run_defs)
  have d': "MODELS_CACHE_data ((served spec_world)\<lparr>now_calls := 5\<rparr>) = Some spec_payload"
    by (simp add: served_def)
  have t': "fst (now ((served spec_world)\<lparr>now_calls := 5\<rparr>))
       - MODELS_CACHE_ts ((served spec_world)\<lparr>now_calls := 5\<rparr>) = 300"
    by (simp add: served_def spec_world_def run_defs)
  have f: "fm_results ((served spec_world)\<lparr>now_calls := 5\<rparr>)
             (fm_calls ((served spec_world)\<lparr>now_calls := 5\<rparr>)) = Inr spec_fm"
    by (simp add: served_def spec_world_def initial_world_def)
  have c: "fm_calls ((served spec_world)\<lparr>now_calls := 5\<rparr>) = 1
         \<and> pg_calls ((served spec_world)\<lparr>now_calls := 5\<rparr>) = 1
         \<and> now_calls (served spec_world) = 3"
    by (simp add: served_def)
  have lt: "fst (now (served spec_world)) - MODELS_CACHE_ts (served spec_world) < 300"
    using t by simp
  have le: "300 \<le> fst (now ((served spec_world)\<lparr>now_calls := 5\<rparr>))
       - MODELS_CACHE_ts ((served spec_world)\<lparr>now_calls := 5\<rparr>)"
    using t' by simp
  have hit: "build_models_payload False (served spec_world)
       = (Inr spec_payload, (served spec_world)\<lparr>now_calls := 4\<rparr>)"
    using ttl_correctness [OF d, THEN conjunct1, THEN mp, OF lt] c by simp
  have stale: "fm_calls (snd (build_models_payload False ((served spec_world)\<lparr>now_calls := 5\<rparr>))) = 2
       \<and> pg_calls (snd (build_models_payload False ((served spec_world)\<lparr>now_calls := 5\<rparr>))) = 2"
    using ttl_correctness [OF d', THEN conjunct2, THEN mp, OF le, THEN conjunct2] f c by simp
  show ?thesis using d t d' t' hit stale by blast
qed

text \<open>
  C10. A call with \<^verbatim>\<open>force_refresh=False\<close> that finds a payload in the cache and reads a
  clock value less than 300 seconds after the stored \<^verbatim>\<open>ts\<close> leaves both keys of
  \<^verbatim>\<open>MODELS_CACHE\<close> as they were. The window is not extended: a following call whose
  clock reading is 300 seconds or more after that same \<^verbatim>\<open>ts\<close> recomputes.
\<close>

theorem cache_hit_frame:
  assumes "MODELS_CACHE_data w = Some p"
    and "fst (now w) - MODELS_CACHE_ts w < 300"
    and "w' = snd (build_models_payload False w)"
  shows "MODELS_CACHE_data w' = MODELS_CACHE_data w
       \<and> MODELS_CACHE_ts w' = MODELS_CACHE_ts w
       \<and> (300 \<le> fst (now w') - MODELS_CACHE_ts w \<longrightarrow>
            build_models_payload False w' = recompute (snd (now w')))"
proof -
  have w': "w' = w\<lparr>now_calls := Suc (now_calls w)\<rparr>"
    using assms build_hit [of w p] by (simp add: now_def)
  have "build_models_payload False w' = recompute (snd (now w'))"
    if "300 \<le> fst (now w') - MODELS_CACHE_ts w"
    using that assms(1) build_stale [of w' p] by (simp add: w' now_def)
  then show ?thesis using w' by simp
qed

theorem cache_hit_frame_witness:
  "MODELS_CACHE_data (served spec_world) = Some spec_payload
   \<and> fst (now (served spec_world)) - MODELS_CACHE_ts (served spec_world) < 300
   \<and> MODELS_CACHE_data (snd (build_models_payload False (served spec_world))) = Some spec_payload
   \<and> MODELS_CACHE_ts (snd (build_models_payload False (served spec_world))) = 1700000200"
proof -
  have d: "MODELS_CACHE_data (served spec_world) = Some spec_payload"
    by (simp add: served_def)
  have t: "fst (now (served spec_world)) - MODELS_CACHE_ts (served spec_world) < 300"
    by (simp add: served_def spec_world_def run_defs)
  have s: "MODELS_CACHE_ts (served spec_world) = 1700000200"
    by (simp add: served_def)
  show ?thesis using cache_hit_frame [OF d t refl] d t s by simp
qed

text \<open>
  C3. When a call recomputes and one of its two upstream calls raises, the call ends with
  that exception and both keys of \<^verbatim>\<open>MODELS_CACHE\<close> are what they were before the call. If
  the cache held a payload, a following call with \<^verbatim>\<open>force_refresh=False\<close> whose clock
  reading is less than 300 seconds after the stored \<^verbatim>\<open>ts\<close> returns that payload.
\<close>

theorem failure_isolation:
  assumes "\<not> serves_cache force_refresh w"
    and "upstream_failure w = Some e"
  shows "\<exists>w'. build_models_payload force_refresh w = (Inl e, w')
       \<and> MODELS_CACHE_data w' = MODELS_CACHE_data w
       \<and> MODELS_CACHE_ts w' = MODELS_CACHE_ts w
       \<and> (\<forall>p. MODELS_CACHE_data w = Some p \<and> fst (now w') - MODELS_CACHE_ts w < 300 \<longrightarrow>
             build_models_payload False w' = (Inr p, w'\<lparr>now_calls := Suc (now_calls w')\<rparr>))"
proof -
  define w0 where "w0 = after_check force_refresh w"
  define w' where "w' = snd (recompute w0)"
  have b: "build_models_payload force_refresh w = recompute w0"
    using assms(1) by (simp add: build_recomputes w0_def)
  have e: "fst (recompute w0) = Inl e"
    using assms(2) by (simp add: recompute_Inl w0_def upstream_failure_after_check)
  then have r: "build_models_payload force_refresh w = (Inl e, w')"
    using b by (simp add: w'_def prod_eq_iff)
  have c: "MODELS_CACHE_data w' = MODELS_CACHE_data w \<and> MODELS_CACHE_ts w' = MODELS_CACHE_ts w"
    using recompute_Inl_cache [OF e] after_check_cache [of force_refresh w]
    by (simp add: w'_def w0_def)
  have "build_models_payload False w' = (Inr p, w'\<lparr>now_calls := Suc (now_calls w')\<rparr>)"
    if "MODELS_CACHE_data w = Some p" and "fst (now w') - MODELS_CACHE_ts w < 300" for p
    using that c build_hit [of w' p] by (simp add: now_def)
  then show ?thesis using r c by blast
qed

text \<open>
  In \<open>flaky_world\<close> the first call stores the payload; the forced call that follows is
  throttled and the call after it is served from the cache. In \<open>paging_world\<close> the forced
  call fails on the second page and the cache still holds the payload of the first call.
\<close>

theorem failure_isolation_witness:
  "\<not> serves_cache True (served flaky_world)
   \<and> upstream_failure (served flaky_world) = Some (BotoError ''ThrottlingException'')
   \<and> build_models_payload True (served flaky_world)
       = (Inl (BotoError ''ThrottlingException''), (served flaky_world)\<lparr>fm_calls := 2\<rparr>)
   \<and> build_models_payload False ((served flaky_world)\<lparr>fm_calls := 2\<rparr>)
       = (Inr spec_payload, (served flaky_world)\<lparr>fm_calls := 2, now_calls := 4\<rparr>)
   \<and> \<not> serves_cache True (served paging_world)
   \<and> upstream_failure (served paging_world) = Some (BotoError ''ReadTimeoutError'')
   \<and> (\<exists>w'. build_models_payload True (served paging_world) = (Inl (BotoError ''ReadTimeoutError''), w')
          \<and> MODELS_CACHE_data w' = Some spec_payload \<and> MODELS_CACHE_ts w' = 1700000200)"
proof -
  have h1: "\<not> serves_cache True (served flaky_world)"
    by (simp add: serves_cache_def)
  have u1: "upstream_failure (served flaky_world) = Some (BotoError ''ThrottlingException'')"
    by (simp add: upstream_failure_def served_def flaky_world_def initial_world_def)
  have r1: "build_models_payload True (served flaky_world)
       = (Inl (BotoError ''ThrottlingException''), (served flaky_world)\<lparr>fm_calls := 2\<rparr>)"
    by (simp add: served_def flaky_world_def run_defs)
  obtain w' where a: "build_models_payload True (served flaky_world) = (Inl (BotoError ''ThrottlingException''), w')"
    and n: "\<forall>p. MODELS_CACHE_data (served flaky_world) = Some p
              \<and> fst (now w') - MODELS_CACHE_ts (served flaky_world) < 300 \<longrightarrow>
             build_models_payload False w' = (Inr p, w'\<lparr>now_calls := Suc (now_calls w')\<rparr>)"
    using failure_isolation [OF h1 u1] by blast
  have w': "w' = (served flaky_world)\<lparr>fm_calls := 2\<rparr>"
    using a r1 by simp
  have "MODELS_CACHE_data (served flaky_world) = Some spec_payload
        \<and> fst (now w') - MODELS_CACHE_ts (served flaky_world) < 300"
    by (simp add: w' served_def flaky_world_def run_defs)
  then have "build_models_payload False w' = (Inr spec_payload, w'\<lparr>now_calls := Suc (now_calls w')\<rparr>)"
    using n by blast
  then have r2: "build_models_payload False ((served flaky_world)\<lparr>fm_calls := 2\<rparr>)
       = (Inr spec_payload, (served flaky_world)\<lparr>fm_calls := 2, now_calls := 4\<rparr>)"
    by (simp add: w' served_def)
  have h2: "\<not> serves_cache True (served paging_world)"
    by (simp add: serves_cache_def)
  have u2: "upstream_failure (served paging_world) = Some (BotoError ''ReadTimeoutError'')"
    by (simp add: upstream_failure_def served_def paging_world_def initial_world_def spec_fm_def)
  have c2: "MODELS_CACHE_data (served paging_world) = Some spec_payload
        \<and> MODELS_CACHE_ts (served paging_world) = 1700000200"
    by (simp add: served_def)
  have r3: "\<exists>w'. build_models_payload True (served paging_world) = (Inl (BotoError ''ReadTimeoutError''), w')
          \<and> MODELS_CACHE_data w' = Some spec_payload \<and> MODELS_CACHE_ts w' = 1700000200"
    using failure_isolation [OF h2 u2] c2 by auto
  show ?thesis using h1 u1 r1 r2 h2 u2 r3 by blast
qed

text \<open>
  C6. A call with \<^verbatim>\<open>force_refresh=True\<close> runs the recomputation whatever the cache holds:
  the base listing is called once, and the profile listing once as soon as the base
  listing has returned (an exception of the first call ends the recomputation). When the
  call succeeds, the cache holds the payload it returns, built from the two listings of
  this call, and \<^verbatim>\<open>ts\<close> is the last clock reading of the call.
\<close>

theorem forced_refresh:
  "build_models_payload True w = recompute w
   \<and> fm_calls (snd (build_models_payload True w)) = Suc (fm_calls w)
   \<and> pg_calls (snd (build_models_payload True w)) =
       (case fm_results w (fm_calls w) of Inl e \<Rightarrow> pg_calls w | Inr resp \<Rightarrow> Suc (pg_calls w))
   \<and> (\<forall>p w'. build_models_payload True w = (Inr p, w') \<longrightarrow>
         MODELS_CACHE_data w' = Some p
         \<and> MODELS_CACHE_ts w' = time_readings w (now_calls w' - 1)
         \<and> pg_calls w' = Suc (pg_calls w)
         \<and> (\<exists>fm xr. fm_listed w = Inr fm \<and> xreg_listed w = Inr xr
               \<and> p = \<lparr>object_p = ''list'', data = dedup_loop (fm @ xr) {} []\<rparr>))"
proof -
  have b: "build_models_payload True w = recompute w" by (rule build_forced)
  have s: "MODELS_CACHE_data w' = Some p
         \<and> MODELS_CACHE_ts w' = time_readings w (now_calls w' - 1)
         \<and> pg_calls w' = Suc (pg_calls w)
         \<and> (\<exists>fm xr. fm_listed w = Inr fm \<and> xreg_listed w = Inr xr
               \<and> p = \<lparr>object_p = ''list'', data = dedup_loop (fm @ xr) {} []\<rparr>)"
    if r: "recompute w = (Inr p, w')" for p w'
  proof -
    obtain fm xr where l: "fm_listed w = Inr fm" "xreg_listed w = Inr xr"
      using recompute_Inr_listed [OF r] by blast
    obtain n where "recompute w =
           (Inr \<lparr>object_p = ''list'', data = dedup_loop (fm @ xr) {} []\<rparr>,
            w\<lparr>fm_calls := Suc (fm_calls w), pg_calls := Suc (pg_calls w),
              MODELS_CACHE_data := Some \<lparr>object_p = ''list'', data = dedup_loop (fm @ xr) {} []\<rparr>,
              MODELS_CACHE_ts := time_readings w n, now_calls := Suc n\<rparr>)"
      using recompute_succeeds [OF l] by blast
    then show ?thesis using r l by auto
  qed
  show ?thesis using b s recompute_calls [of w] by simp
qed

text \<open>
  The cache of \<open>served spec_world\<close> is fresh, and the forced call replaces it: the base
  record now carries the clock reading of this call.
\<close>

theorem forced_refresh_witness:
  "fst (now (served spec_world)) - MODELS_CACHE_ts (served spec_world) < 300
   \<and> build_models_payload True (served spec_world) =
      (Inr \<lparr>object_p = ''list'',
            data = [mk_entry ''claude-v2'' 1700000300,
                    mk_entry ''us.claude-v2'' 1700000400,
                    mk_entry ''arn:aws:...:us.claude-v2'' 1700000400]\<rparr>,
       (served spec_world)
        \<lparr>MODELS_CACHE_data := Some \<lparr>object_p = ''list'',
            data = [mk_entry ''claude-v2'' 1700000300,
                    mk_entry ''us.claude-v2'' 1700000400,
                    mk_entry ''arn:aws:...:us.claude-v2'' 1700000400]\<rparr>,
          MODELS_CACHE_ts := 1700000500, now_calls := 6, fm_calls := 2, pg_calls := 2\<rparr>)
   \<and> fm_calls (snd (build_models_payload True (served spec_world))) = Suc (fm_calls (served spec_world))
   \<and> pg_calls (snd (build_models_payload True (served spec_world))) = Suc (pg_calls (served spec_world))"
proof -
  have t: "fst (now (served spec_world)) - MODELS_CACHE_ts (served spec_world) < 300"
    by (simp add: served_def spec_world_def run_defs)
  have r: "build_models_payload True (served spec_world) =
      (Inr \<lparr>object_p = ''list'',
            data = [mk_entry ''claude-v2'' 1700000300,
                    mk_entry ''us.claude-v2'' 1700000400,
                    mk_entry ''arn:aws:...:us.claude-v2'' 1700000400]\<rparr>,
       (served spec_world)
        \<lparr>MODELS_CACHE_data := Some \<lparr>object_p = ''list'',
            data = [mk_entry ''claude-v2'' 1700000300,
                    mk_entry ''us.claude-v2'' 1700000400,
                    mk_entry ''arn:aws:...:us.claude-v2'' 1700000400]\<rparr>,
          MODELS_CACHE_ts := 1700000500, now_calls := 6, fm_calls := 2, pg_calls := 2\<rparr>)"
    by (simp add: served_def spec_world_def spec_payload_def run_defs)
  have f: "fm_results (served spec_world) (fm_calls (served spec_world)) = Inr spec_fm"
    by (simp add: served_def spec_world_def initial_world_def)
  have c: "fm_calls (snd (build_models_payload True (served spec_world))) = Suc (fm_calls (served spec_world))
     \<and> pg_calls (snd (build_models_payload True (served spec_world))) = Suc (pg_calls (served spec_world))"
    using forced_refresh [of "served spec_world", THEN conjunct2] f by simp
  show ?thesis using t r c by blast
qed

text \<open>
  C9. When a call recomputes and both listings give no record, the call returns the
  catalogue \<^verbatim>\<open>{"object": "list", "data": []}\<close> and stores it; the stored dictionary is
  true as a condition, so a following call with \<^verbatim>\<open>force_refresh=False\<close> whose clock
  reading is less than 300 seconds after the stored \<^verbatim>\<open>ts\<close> returns it and changes
  nothing but the count of clock readings: no upstream call is made.
\<close>

theorem empty_catalog_cached:
  assumes "\<not> serves_cache force_refresh w"
    and "fm_listed (after_check force_refresh w) = Inr []"
    and "xreg_listed (after_check force_refresh w) = Inr []"
  shows "\<exists>w'. build_models_payload force_refresh w = (Inr \<lparr>object_p = ''list'', data = []\<rparr>, w')
       \<and> MODELS_CACHE_data w' = Some \<lparr>object_p = ''list'', data = []\<rparr>
       \<and> truthy_payload (MODELS_CACHE_data w')
       \<and> (fst (now w') - MODELS_CACHE_ts w' < 300 \<longrightarrow>
            build_models_payload False w' =
              (Inr \<lparr>object_p = ''list'', data = []\<rparr>, w'\<lparr>now_calls := Suc (now_calls w')\<rparr>))"
proof -
  define w0 where "w0 = after_check force_refresh w"
  have b: "build_models_payload force_refresh w = recompute w0"
    using assms(1) by (simp add: build_recomputes w0_def)
  obtain n where r: "recompute w0 =
           (Inr \<lparr>object_p = ''list'', data = dedup_loop ([] @ []) {} []\<rparr>,
            w0\<lparr>fm_calls := Suc (fm_calls w0), pg_calls := Suc (pg_calls w0),
              MODELS_CACHE_data := Some \<lparr>object_p = ''list'', data = dedup_loop ([] @ []) {} []\<rparr>,
              MODELS_CACHE_ts := time_readings w0 n, now_calls := Suc n\<rparr>)"
    using recompute_succeeds [of w0 "[]" "[]"] assms(2,3) by (auto simp: w0_def)
  define w' where "w' = snd (recompute w0)"
  have d: "MODELS_CACHE_data w' = Some \<lparr>object_p = ''list'', data = []\<rparr>"
    using r by (simp add: w'_def)
  have "build_models_payload False w' =
              (Inr \<lparr>object_p = ''list'', data = []\<rparr>, w'\<lparr>now_calls := Suc (now_calls w')\<rparr>)"
    if "fst (now w') - MODELS_CACHE_ts w' < 300"
    using that d build_hit [of w' "\<lparr>object_p = ''list'', data = []\<rparr>"] by (simp add: now_def)
  moreover have "build_models_payload force_refresh w = (Inr \<lparr>object_p = ''list'', data = []\<rparr>, w')"
    using b r by (simp add: w'_def)
  ultimately show ?thesis using d by auto
qed

text \<open>
  In \<open>empty_world\<close> every record lacks its identifiers. The first call stores the empty
  catalogue at the second clock reading; the next call reads the clock 100 seconds later
  and is served from the cache.
\<close>

theorem empty_catalog_cached_witness:
  "\<not> serves_cache False empty_world
   \<and> fm_listed (after_check False empty_world) = Inr []
   \<and> xreg_listed (after_check False empty_world) = Inr []
   \<and> build_models_payload False empty_world =
       (Inr \<lparr>object_p = ''list'', data = []\<rparr>,
        empty_world\<lparr>MODELS_CACHE_data := Some \<lparr>object_p = ''list'', data = []\<rparr>,
                    MODELS_CACHE_ts := 1700000100, now_calls := 2, fm_calls := 1, pg_calls := 1\<rparr>)
   \<and> build_models_payload False
        (empty_world\<lparr>MODELS_CACHE_data := Some \<lparr>object_p = ''list'', data = []\<rparr>,
                    MODELS_CACHE_ts := 1700000100, now_calls := 2, fm_calls := 1, pg_calls := 1\<rparr>) =
       (Inr \<lparr>object_p = ''list'', data = []\<rparr>,
        empty_world\<lparr>MODELS_CACHE_data := Some \<lparr>object_p = ''list'', data = []\<rparr>,
                    MODELS_CACHE_ts := 1700000100, now_calls := 3, fm_calls := 1, pg_calls := 1\<rparr>)"
proof -
  define w1 where "w1 = empty_world\<lparr>MODELS_CACHE_data := Some \<lparr>object_p = ''list'', data = []\<rparr>,
                    MODELS_CACHE_ts := 1700000100, now_calls := 2, fm_calls := 1, pg_calls := 1\<rparr>"
  have h: "\<not> serves_cache False empty_world"
    by (simp add: empty_world_def run_defs)
  have f: "fm_listed (after_check False empty_world) = Inr []"
    by (simp add: empty_world_def run_defs)
  have x: "xreg_listed (after_check False empty_world) = Inr []"
    by (simp add: empty_world_def run_defs)
  have r: "build_models_payload False empty_world = (Inr \<lparr>object_p = ''list'', data = []\<rparr>, w1)"
    by (simp add: w1_def empty_world_def run_defs)
  obtain w' where a: "build_models_payload False empty_world = (Inr \<lparr>object_p = ''list'', data = []\<rparr>, w')"
    and n: "fst (now w') - MODELS_CACHE_ts w' < 300 \<longrightarrow>
            build_models_payload False w' =
              (Inr \<lparr>object_p = ''list'', data = []\<rparr>, w'\<lparr>now_calls := Suc (now_calls w')\<rparr>)"
    using empty_catalog_cached [OF h f x] by blast
  have w': "w' = w1" using a r by simp
  have "fst (now w1) - MODELS_CACHE_ts w1 < 300"
    by (simp add: w1_def empty_world_def run_defs)
  then have "build_models_payload False w1 =
              (Inr \<lparr>object_p = ''list'', data = []\<rparr>, w1\<lparr>now_calls := Suc (now_calls w1)\<rparr>)"
    using n w' by simp
  then have r2: "build_models_payload False w1 =
       (Inr \<lparr>object_p = ''list'', data = []\<rparr>,
        empty_world\<lparr>MODELS_CACHE_data := Some \<lparr>object_p = ''list'', data = []\<rparr>,
                    MODELS_CACHE_ts := 1700000100, now_calls := 3, fm_calls := 1, pg_calls := 1\<rparr>)"
    by (simp add: w1_def)
  show ?thesis using h f x r r2 unfolding w1_def by blast
qed

text \<open>
  C4. In a recomputed payload the records kept from the base listing come first, in the
  order of that listing, followed by the records kept from the profile listing, in the
  order of that listing; when no identifier occurs twice the payload is the base records
  followed by the profile records. The identifiers of each listing are those of its input
  records, in input order.
\<close>

theorem order_preservation:
  assumes "\<not> serves_cache force_refresh w"
    and "fm_listed (after_check force_refresh w) = Inr fm"
    and "xreg_listed (after_check force_refresh w) = Inr xr"
  shows "\<exists>p w'. build_models_payload force_refresh w = (Inr p, w')
       \<and> data p = dedup_loop fm {} [] @ dedup_loop xr (id_m ` set fm) []
       \<and> subseq (dedup_loop fm {} []) fm
       \<and> subseq (dedup_loop xr (id_m ` set fm) []) xr
       \<and> (distinct (map id_m (fm @ xr)) \<longrightarrow> data p = fm @ xr)
       \<and> (\<forall>resp. fm_results w (fm_calls w) = Inr resp \<longrightarrow>
             map id_m fm = concat (map fm_ids (case modelSummaries resp of None \<Rightarrow> [] | Some ms \<Rightarrow> ms)))
       \<and> map id_m xr = concat (map profile_ids (stream_summaries (pg_results w (pg_calls w))))"
proof -
  define w0 where "w0 = after_check force_refresh w"
  have b: "build_models_payload force_refresh w = recompute w0"
    using assms(1) by (simp add: build_recomputes w0_def)
  obtain w' where r: "recompute w0 = (Inr \<lparr>object_p = ''list'', data = dedup_loop (fm @ xr) {} []\<rparr>, w')"
    using recompute_succeeds [of w0 fm xr] assms(2,3) by (auto simp: w0_def)
  have d: "dedup_loop (fm @ xr) {} [] = dedup_loop fm {} [] @ dedup_loop xr (id_m ` set fm) []"
    by (simp add: dedup_loop_append)
  have s: "distinct (map id_m (fm @ xr)) \<Longrightarrow> dedup_loop (fm @ xr) {} [] = fm @ xr"
    by (rule dedup_loop_same) simp_all
  have f: "map id_m fm = concat (map fm_ids (case modelSummaries resp of None \<Rightarrow> [] | Some ms \<Rightarrow> ms))"
    if "fm_results w (fm_calls w) = Inr resp" for resp
    using that fm_listed_ids [of w0 fm resp] assms(2) after_check_upstream [of force_refresh w]
    by (simp add: w0_def)
  have x: "map id_m xr = concat (map profile_ids (stream_summaries (pg_results w (pg_calls w))))"
    using xreg_listed_ids [of w0 xr] assms(3) after_check_upstream [of force_refresh w]
    by (simp add: w0_def)
  have "build_models_payload force_refresh w =
          (Inr \<lparr>object_p = ''list'', data = dedup_loop (fm @ xr) {} []\<rparr>, w')"
    using b r by simp
  moreover have "data \<lparr>object_p = ''list'', data = dedup_loop (fm @ xr) {} []\<rparr>
                 = dedup_loop fm {} [] @ dedup_loop xr (id_m ` set fm) []"
    using d by simp
  moreover have "distinct (map id_m (fm @ xr)) \<longrightarrow>
                 data \<lparr>object_p = ''list'', data = dedup_loop (fm @ xr) {} []\<rparr> = fm @ xr"
    using s by simp
  ultimately show ?thesis
    using f x dedup_loop_subseq [of fm "{}"] dedup_loop_subseq [of xr "id_m ` set fm"] by blast
qed

text \<open>
  The example of the specification: the payload holds the three identifiers
  \<^verbatim>\<open>claude-v2\<close>, \<^verbatim>\<open>us.claude-v2\<close> and the ARN, in that order.
\<close>

theorem order_preservation_witness:
  "\<not> serves_cache False spec_world
   \<and> fm_listed (after_check False spec_world) = Inr [mk_entry ''claude-v2'' 1700000000]
   \<and> xreg_listed (after_check False spec_world) =
       Inr [mk_entry ''us.claude-v2'' 1700000100, mk_entry ''arn:aws:...:us.claude-v2'' 1700000100]
   \<and> (\<exists>p w'. build_models_payload False spec_world = (Inr p, w')
        \<and> data p = [mk_entry ''claude-v2'' 1700000000, mk_entry ''us.claude-v2'' 1700000100,
                     mk_entry ''arn:aws:...:us.claude-v2'' 1700000100]
        \<and> map id_m (data p) = [''claude-v2'', ''us.claude-v2'', ''arn:aws:...:us.claude-v2''])"
proof -
  have h: "\<not> serves_cache False spec_world"
    by (simp add: spec_world_def run_defs)
  have f: "fm_listed (after_check False spec_world) = Inr [mk_entry ''claude-v2'' 1700000000]"
    by (simp add: spec_world_def run_defs)
  have x: "xreg_listed (after_check False spec_world) =
       Inr [mk_entry ''us.claude-v2'' 1700000100, mk_entry ''arn:aws:...:us.claude-v2'' 1700000100]"
    by (simp add: spec_world_def run_defs)
  have d: "distinct (map id_m ([mk_entry ''claude-v2'' 1700000000]
            @ [mk_entry ''us.claude-v2'' 1700000100, mk_entry ''arn:aws:...:us.claude-v2'' 1700000100]))"
    by (simp add: mk_entry_def)
  obtain p w' where r: "build_models_payload False spec_world = (Inr p, w')"
    and e: "distinct (map id_m ([mk_entry ''claude-v2'' 1700000000]
            @ [mk_entry ''us.claude-v2'' 1700000100, mk_entry ''arn:aws:...:us.claude-v2'' 1700000100]))
          \<longrightarrow> data p = [mk_entry ''claude-v2'' 1700000000]
            @ [mk_entry ''us.claude-v2'' 1700000100, mk_entry ''arn:aws:...:us.claude-v2'' 1700000100]"
    using order_preservation [OF h f x] by blast
  have dp: "data p = [mk_entry ''claude-v2'' 1700000000, mk_entry ''us.claude-v2'' 1700000100,
                     mk_entry ''arn:aws:...:us.claude-v2'' 1700000100]"
    using e d by simp
  have ex: "\<exists>p w'. build_models_payload False spec_world = (Inr p, w')
        \<and> data p = [mk_entry ''claude-v2'' 1700000000, mk_entry ''us.claude-v2'' 1700000100,
                     mk_entry ''arn:aws:...:us.claude-v2'' 1700000100]
        \<and> map id_m (data p) = [''claude-v2'', ''us.claude-v2'', ''arn:aws:...:us.claude-v2'']"
    by (rule exI [of _ p], rule exI [of _ w']) (simp add: r dp mk_entry_def)
  show ?thesis using h f x ex by simp
qed

text \<open>
  C5. When an identifier produced by the base listing is also produced by the profile
  listing (as a profile identifier or as an ARN), a recomputed payload holds exactly one
  record with that identifier: the first base record that carries it, with the
  \<open>created\<close> value of that base record.
\<close>

theorem base_precedence:
  assumes "\<not> serves_cache force_refresh w"
    and "fm_listed (after_check force_refresh w) = Inr fm"
    and "xreg_listed (after_check force_refresh w) = Inr xr"
    and "i \<in> id_m ` set fm"
    and "i \<in> id_m ` set xr"
  shows "\<exists>p w' b. build_models_payload force_refresh w = (Inr p, w')
       \<and> find (\<lambda>r. id_m r = i) fm = Some b
       \<and> b \<in> set fm
       \<and> filter (\<lambda>r. id_m r = i) (data p) = [b]"
proof -
  define w0 where "w0 = after_check force_refresh w"
  have bd: "build_models_payload force_refresh w = recompute w0"
    using assms(1) by (simp add: build_recomputes w0_def)
  obtain w' where r: "recompute w0 = (Inr \<lparr>object_p = ''list'', data = dedup_loop (fm @ xr) {} []\<rparr>, w')"
    using recompute_succeeds [of w0 fm xr] assms(2,3) by (auto simp: w0_def)
  obtain b where b: "find (\<lambda>r. id_m r = i) fm = Some b" "b \<in> set fm"
    using find_in_ids [OF assms(4)] by blast
  have "find (\<lambda>r. id_m r = i) (dedup_loop (fm @ xr) {} []) = Some b"
    using find_append_first [OF b(1), of xr] by (simp add: dedup_loop_find)
  then have "filter (\<lambda>r. id_m r = i) (dedup_loop (fm @ xr) {} []) = [b]"
    using filter_find_distinct [of id_m "dedup_loop (fm @ xr) {} []" i b]
    by (simp add: dedup_loop_distinct)
  then show ?thesis using bd r b by simp
qed

text \<open>
  In \<open>dup_world\<close> the identifier \<^verbatim>\<open>m2\<close> comes from the base listing, created at the clock
  reading 1700000100, and from the profile listing, created at 5: the payload holds the
  base record only.
\<close>

theorem base_precedence_witness:
  "\<not> serves_cache False dup_world
   \<and> fm_listed (after_check False dup_world) =
       Inr [mk_entry ''m1'' 1700000000, mk_entry ''m2'' 1700000100, mk_entry ''m1'' 1700000200]
   \<and> xreg_listed (after_check False dup_world) = Inr [mk_entry ''m2'' 5, mk_entry ''arn:m2'' 5]
   \<and> (\<exists>p w'. build_models_payload False dup_world = (Inr p, w')
         \<and> filter (\<lambda>r. id_m r = ''m2'') (data p) = [mk_entry ''m2'' 1700000100])"
proof -
  have h: "\<not> serves_cache False dup_world"
    by (simp add: dup_world_def run_defs py_int_example)
  have f: "fm_listed (after_check False dup_world) =
       Inr [mk_entry ''m1'' 1700000000, mk_entry ''m2'' 1700000100, mk_entry ''m1'' 1700000200]"
    by (simp add: dup_world_def run_defs py_int_example)
  have x: "xreg_listed (after_check False dup_world) = Inr [mk_entry ''m2'' 5, mk_entry ''arn:m2'' 5]"
    by (simp add: dup_world_def run_defs py_int_example)
  have i1: "''m2'' \<in> id_m ` set [mk_entry ''m1'' 1700000000, mk_entry ''m2'' 1700000100, mk_entry ''m1'' 1700000200]"
    by (simp add: mk_entry_def)
  have i2: "''m2'' \<in> id_m ` set [mk_entry ''m2'' 5, mk_entry ''arn:m2'' 5]"
    by (simp add: mk_entry_def)
  have fd: "find (\<lambda>r. id_m r = ''m2'')
             [mk_entry ''m1'' 1700000000, mk_entry ''m2'' 1700000100, mk_entry ''m1'' 1700000200]
            = Some (mk_entry ''m2'' 1700000100)"
    by (simp add: mk_entry_def)
  obtain p w' b where "build_models_payload False dup_world = (Inr p, w')"
    and "find (\<lambda>r. id_m r = ''m2'')
             [mk_entry ''m1'' 1700000000, mk_entry ''m2'' 1700000100, mk_entry ''m1'' 1700000200] = Some b"
    and "filter (\<lambda>r. id_m r = ''m2'') (data p) = [b]"
    using base_precedence [OF h f x i1 i2] by blast
  then have "build_models_payload False dup_world = (Inr p, w')
         \<and> filter (\<lambda>r. id_m r = ''m2'') (data p) = [mk_entry ''m2'' 1700000100]"
    using fd by simp
  then have ex: "\<exists>p w'. build_models_payload False dup_world = (Inr p, w')
         \<and> filter (\<lambda>r. id_m r = ''m2'') (data p) = [mk_entry ''m2'' 1700000100]"
    by (intro exI)
  show ?thesis using h f x ex by simp
qed

text \<open>
  C7. A base-model record whose \<^verbatim>\<open>modelId\<close> is absent or empty is passed over by the loop
  of \<^verbatim>\<open>_list_foundation_models\<close>: the list built so far and the world stay as they are. A
  profile record with neither a non-empty identifier nor a non-empty ARN adds nothing to
  the list of \<^verbatim>\<open>_list_cross_region_profiles\<close>. Neither listing raises because of a
  record: once the upstream call has returned, the listing returns, and its identifiers
  are exactly the non-empty identifiers of the input records.
\<close>

theorem malformed_skipped:
  "(\<not> truthy (modelId m) \<longrightarrow> fm_loop (m # ms) out w = fm_loop ms out w)
   \<and> (\<not> truthy (inferenceProfileId s) \<and> \<not> truthy (inferenceProfileArn s) \<longrightarrow>
        fst (profile_step s out w) = out)
   \<and> (\<forall>resp. fm_results w (fm_calls w) = Inr resp \<longrightarrow>
        (\<exists>fm. fst (list_foundation_models w) = Inr fm
            \<and> map id_m fm = concat (map fm_ids (case modelSummaries resp of None \<Rightarrow> [] | Some ms \<Rightarrow> ms))))
   \<and> (stream_error (pg_results w (pg_calls w)) = None \<longrightarrow>
        (\<exists>xr. fst (list_cross_region_profiles w) = Inr xr
            \<and> map id_m xr = concat (map profile_ids (stream_summaries (pg_results w (pg_calls w))))))
   \<and> (\<not> truthy (modelId m) \<longrightarrow> fm_ids m = [])
   \<and> (\<not> truthy (inferenceProfileId s) \<and> \<not> truthy (inferenceProfileArn s) \<longrightarrow> profile_ids s = [])"
proof -
  have a: "fm_loop (m # ms) out w = fm_loop ms out w" if "\<not> truthy (modelId m)"
    using that by (cases "modelId m") simp_all
  have b: "fst (profile_step s out w) = out"
    if "\<not> truthy (inferenceProfileId s) \<and> \<not> truthy (inferenceProfileArn s)"
    using that by (simp add: profile_step_explicit)
  have c: "fm_ids m = []" if "\<not> truthy (modelId m)"
    using that by (cases "modelId m") (simp_all add: fm_ids_def)
  have d: "profile_ids s = []"
    if "\<not> truthy (inferenceProfileId s) \<and> \<not> truthy (inferenceProfileArn s)"
    using that by (cases "inferenceProfileId s"; cases "inferenceProfileArn s")
                  (simp_all add: profile_ids_def)
  show ?thesis
    using a b c d list_foundation_models_ids [of w] list_cross_region_profiles_ids [of w]
    by blast
qed

text \<open>
  In \<open>empty_world\<close> the base listing holds a record without \<^verbatim>\<open>modelId\<close> and one with
  an empty \<^verbatim>\<open>modelId\<close>, the profile listing a record without identifier and with an
  empty ARN: both listings return the empty list.
\<close>

theorem malformed_skipped_witness:
  "\<not> truthy (modelId \<lparr>modelId = Some []\<rparr>)
   \<and> fm_loop [\<lparr>modelId = Some []\<rparr>, \<lparr>modelId = None\<rparr>] [] empty_world = ([], empty_world)
   \<and> fst (profile_step \<lparr>inferenceProfileId = None, inferenceProfileArn = Some [],
                         createdAt = NoCreatedAt\<rparr> [] empty_world) = []
   \<and> fst (list_foundation_models empty_world) = Inr []
   \<and> stream_error (pg_results empty_world (pg_calls empty_world)) = None
   \<and> fst (list_cross_region_profiles empty_world) = Inr []"
proof -
  define s :: profile_summary where
    "s = \<lparr>inferenceProfileId = None, inferenceProfileArn = Some [], createdAt = NoCreatedAt\<rparr>"
  note m = malformed_skipped [of "\<lparr>modelId = Some []\<rparr>" "[\<lparr>modelId = None\<rparr>]" "[]" empty_world s]
  have t: "\<not> truthy (modelId \<lparr>modelId = Some []\<rparr>)" by simp
  have "fm_loop [\<lparr>modelId = Some []\<rparr>, \<lparr>modelId = None\<rparr>] [] empty_world
          = fm_loop [\<lparr>modelId = None\<rparr>] [] empty_world"
    using m t by blast
  then have a: "fm_loop [\<lparr>modelId = Some []\<rparr>, \<lparr>modelId = None\<rparr>] [] empty_world = ([], empty_world)"
    by simp
  have ts: "\<not> truthy (inferenceProfileId s) \<and> \<not> truthy (inferenceProfileArn s)"
    by (simp add: s_def)
  have b: "fst (profile_step s [] empty_world) = []"
    using m ts by blast
  have r: "fm_results empty_world (fm_calls empty_world)
             = Inr \<lparr>modelSummaries = Some [\<lparr>modelId = None\<rparr>, \<lparr>modelId = Some []\<rparr>]\<rparr>"
    by (simp add: empty_world_def initial_world_def)
  obtain fm where "fst (list_foundation_models empty_world) = Inr fm"
    and "map id_m fm = concat (map fm_ids
           (case modelSummaries \<lparr>modelSummaries = Some [\<lparr>modelId = None\<rparr>, \<lparr>modelId = Some []\<rparr>]\<rparr> of
              None \<Rightarrow> [] | Some ms \<Rightarrow> ms))"
    using m r by blast
  then have c: "fst (list_foundation_models empty_world) = Inr []"
    by (simp add: fm_ids_def)
  have e: "stream_error (pg_results empty_world (pg_calls empty_world)) = None"
    by (simp add: empty_world_def initial_world_def)
  obtain xr where "fst (list_cross_region_profiles empty_world) = Inr xr"
    and "map id_m xr = concat (map profile_ids (stream_summaries (pg_results empty_world (pg_calls empty_world))))"
    using m e by blast
  then have d: "fst (list_cross_region_profiles empty_world) = Inr []"
    by (simp add: empty_world_def initial_world_def profile_ids_def)
  show ?thesis using t a b c d e by (simp add: s_def)
qed

text \<open>
  C8. For a profile record, \<^verbatim>\<open>created_ts\<close> is \<^verbatim>\<open>int(created_at.timestamp())\<close> when
  \<^verbatim>\<open>createdAt\<close> has a \<^verbatim>\<open>timestamp\<close> attribute and the clock reading otherwise. The loop
  body appends a record with \<open>id\<close> the identifier when the identifier is non-empty, then
  a record with \<open>id\<close> the ARN when the ARN is non-empty, both with that \<open>created\<close>,
  \<open>object\<close> \<^verbatim>\<open>model\<close> and \<open>owned_by\<close> \<^verbatim>\<open>bedrock\<close>; a listing of that single record returns
  just these records. For a timestamp that is not negative, \<open>created\<close> is its whole
  number of seconds.
\<close>

theorem profile_normalization:
  assumes "c = (case createdAt s of Datetime r \<Rightarrow> py_int r
                | NoCreatedAt \<Rightarrow> fst (now w) | NotTimeLike \<Rightarrow> fst (now w))"
    and "E = (if truthy (inferenceProfileId s)
              then [\<lparr>id_m = the (inferenceProfileId s), created = c,
                     object_m = ''model'', owned_by = ''bedrock''\<rparr>]
              else [])
           @ (if truthy (inferenceProfileArn s)
              then [\<lparr>id_m = the (inferenceProfileArn s), created = c,
                     object_m = ''model'', owned_by = ''bedrock''\<rparr>]
              else [])"
  shows "fst (profile_step s out w) = out @ E
       \<and> (pg_results w (pg_calls w) = Page \<lparr>inferenceProfileSummaries = Some [s]\<rparr> Exhausted \<longrightarrow>
            fst (list_cross_region_profiles w) = Inr E)
       \<and> (\<forall>r. createdAt s = Datetime r \<and> 0 \<le> r \<longrightarrow> of_int c \<le> r \<and> r < of_int c + 1)"
proof -
  have a: "fst (profile_step s out' w') = out' @ E" if "fst (now w') = fst (now w)" for out' w'
    using that assms by (simp add: profile_step_explicit mk_entry_def split: created_val.splits)
  have b: "fst (list_cross_region_profiles w) = Inr E"
    if "pg_results w (pg_calls w) = Page \<lparr>inferenceProfileSummaries = Some [s]\<rparr> Exhausted"
    using list_cross_region_profiles_single [OF that]
      a [where out' = "[]" and w' = "w\<lparr>pg_calls := Suc (pg_calls w)\<rparr>"] now_pg_calls [of "Suc (pg_calls w)" w]
    by simp
  have d: "of_int c \<le> r \<and> r < of_int c + 1" if "createdAt s = Datetime r \<and> 0 \<le> r" for r
    using that assms(1) py_int_bounds [of r] by simp
  show ?thesis using a [where out' = out and w' = w] b d by blast
qed

text \<open>
  The example of the specification: an empty identifier and a non-empty ARN give one
  record, the one of the ARN; its \<^verbatim>\<open>timestamp()\<close> 5.5 becomes 5.
\<close>

theorem profile_normalization_witness:
  "fst (profile_step arn_only [] arn_only_world) = [mk_entry ''arn:aws:...:us.claude-v2'' 5]
   \<and> pg_results arn_only_world (pg_calls arn_only_world)
       = Page \<lparr>inferenceProfileSummaries = Some [arn_only]\<rparr> Exhausted
   \<and> fst (list_cross_region_profiles arn_only_world) = Inr [mk_entry ''arn:aws:...:us.claude-v2'' 5]
   \<and> createdAt arn_only = Datetime (11 / 2)
   \<and> rat_of_int 5 \<le> 11 / 2 \<and> (11 / 2 :: rat) < rat_of_int 5 + 1"
proof -
  have c: "(5::int) = (case createdAt arn_only of Datetime r \<Rightarrow> py_int r
                | NoCreatedAt \<Rightarrow> fst (now arn_only_world) | NotTimeLike \<Rightarrow> fst (now arn_only_world))"
    by (simp add: arn_only_def py_int_example)
  have e: "[mk_entry ''arn:aws:...:us.claude-v2'' 5] =
           (if truthy (inferenceProfileId arn_only)
              then [\<lparr>id_m = the (inferenceProfileId arn_only), created = 5,
                     object_m = ''model'', owned_by = ''bedrock''\<rparr>]
              else [])
           @ (if truthy (inferenceProfileArn arn_only)
              then [\<lparr>id_m = the (inferenceProfileArn arn_only), created = 5,
                     object_m = ''model'', owned_by = ''bedrock''\<rparr>]
              else [])"
    by (simp add: arn_only_def mk_entry_def)
  note n = profile_normalization [OF c e, of "[]"]
  have p: "pg_results arn_only_world (pg_calls arn_only_world)
       = Page \<lparr>inferenceProfileSummaries = Some [arn_only]\<rparr> Exhausted"
    by (simp add: arn_only_world_def initial_world_def)
  have t: "createdAt arn_only = Datetime (11 / 2) \<and> (0::rat) \<le> 11 / 2"
    by (simp add: arn_only_def)
  have r1: "fst (profile_step arn_only [] arn_only_world) = [mk_entry ''arn:aws:...:us.claude-v2'' 5]"
    using n by simp
  have r2: "fst (list_cross_region_profiles arn_only_world) = Inr [mk_entry ''arn:aws:...:us.claude-v2'' 5]"
    using n p by blast
  have r3: "rat_of_int 5 \<le> 11 / 2 \<and> (11 / 2 :: rat) < rat_of_int 5 + 1"
    using n t by blast
  show ?thesis using r1 p r2 t r3 by simp
qed

end
